theory Spec2Isabelle
  imports Main "HOL-Library.Char_ord" "HOL-Library.List_Lexorder" "HOL-Library.Sublist"
begin

section \<open>Python values used by both programs\<close>

text \<open>
  Strings are \<open>string\<close> (lists of 8-bit characters): the model covers the Latin-1 range of
  Python's \<open>str\<close>. Exceptions are values of \<open>exn\<close>; a computation that may raise returns
  \<open>exn + 'a\<close> with \<open>Inl\<close> the exception. \<open>Error\<close> stands for any exception (a subclass of
  \<open>Exception\<close>) raised inside a collaborator library, carrying its \<open>str(e)\<close> text.
\<close>

datatype exn = KeyError string | AttributeError string | ValueError string | Error string

text \<open>Sequencing of computations that may raise: the first exception ends the run.\<close>

definition and_then :: "exn + 'a \<Rightarrow> ('a \<Rightarrow> exn + 'b) \<Rightarrow> exn + 'b" where
  "and_then m f = (case m of Inl e \<Rightarrow> Inl e | Inr v \<Rightarrow> f v)"

text \<open>\<open>d[k]\<close> on a dictionary entry that may be absent.\<close>

definition item :: "string \<Rightarrow> 'a option \<Rightarrow> exn + 'a" where
  "item k v = (case v of None \<Rightarrow> Inl (KeyError k) | Some x \<Rightarrow> Inr x)"

text \<open>The truth value of an optional string (\<open>if data:\<close>): false for \<open>None\<close> and for \<open>""\<close>.\<close>

definition truthy :: "string option \<Rightarrow> bool" where
  "truthy v = (case v of None \<Rightarrow> False | Some s \<Rightarrow> s \<noteq> [])"

text \<open>\<open>str(e)\<close>\<close>

fun exn_str :: "exn \<Rightarrow> string" where
  "exn_str (KeyError k) = [CHR 0x27] @ k @ [CHR 0x27]"
| "exn_str (AttributeError m) = m"
| "exn_str (ValueError m) = m"
| "exn_str (Error m) = m"

text \<open>\<open>str.isspace\<close> on the code points below 256.\<close>

definition is_space :: "char \<Rightarrow> bool" where
  "is_space c = (of_char c \<in> set [9, 10, 11, 12, 13, 28, 29, 30, 31, 32, 133, 160 :: nat])"

text \<open>\<open>s.strip()\<close>\<close>

definition strip :: "string \<Rightarrow> string" where
  "strip s = rev (dropWhile is_space (rev (dropWhile is_space s)))"

text \<open>\<open>s.lower()\<close> on the code points below 256: the capital letters (A to Z, and 192 to 222
  without the multiplication sign 215) move up by 32, which sets bit 5.\<close>

definition lower_char :: "char \<Rightarrow> char" where
  "lower_char c =
     (let n = (of_char c :: nat)
      in if (65 \<le> n \<and> n \<le> 90) \<or> (192 \<le> n \<and> n \<le> 222 \<and> n \<noteq> 215)
         then Char (digit0 c) (digit1 c) (digit2 c) (digit3 c) (digit4 c) True (digit6 c) (digit7 c)
         else c)"

definition lower :: "string \<Rightarrow> string" where
  "lower s = map lower_char s"

text \<open>\<open>s.endswith(suf)\<close>\<close>

definition endswith :: "string \<Rightarrow> string \<Rightarrow> bool" where
  "endswith s suf = suffix suf s"

text \<open>\<open>sub in s\<close>: \<open>sub\<close> occurs in \<open>s\<close> as a contiguous substring.\<close>

fun contains :: "string \<Rightarrow> string \<Rightarrow> bool" where
  "contains sub [] = (sub = [])"
| "contains sub (c # cs) = (prefix sub (c # cs) \<or> contains sub cs)"

text \<open>\<open>s.split(sep)[0]\<close> for a non-empty \<open>sep\<close>: the text before the leftmost occurrence
  of \<open>sep\<close>, all of \<open>s\<close> when there is none.\<close>

fun split_head :: "string \<Rightarrow> string \<Rightarrow> string" where
  "split_head sep [] = []"
| "split_head sep (c # cs) = (if prefix sep (c # cs) then [] else c # split_head sep cs)"

text \<open>\<open>s.split()\<close>: the maximal runs of non-whitespace characters, in order. The first
  argument is the word being read.\<close>

fun split_acc :: "string \<Rightarrow> string \<Rightarrow> string list" where
  "split_acc cur [] = (if cur = [] then [] else [cur])"
| "split_acc cur (c # cs) =
     (if is_space c then (if cur = [] then split_acc [] cs else cur # split_acc [] cs)
      else split_acc (cur @ [c]) cs)"

definition split_ws :: "string \<Rightarrow> string list" where
  "split_ws s = split_acc [] s"

text \<open>\<open>sep.join(xs)\<close>\<close>

fun join :: "string \<Rightarrow> string list \<Rightarrow> string" where
  "join sep [] = []"
| "join sep [x] = x"
| "join sep (x # y # ys) = x @ sep @ join sep (y # ys)"

text \<open>\<open>range(i, n, k)\<close> for a positive step \<open>k\<close>.\<close>

function range_step :: "nat \<Rightarrow> nat \<Rightarrow> nat \<Rightarrow> nat list" where
  "range_step i n k = (if k = 0 \<or> n \<le> i then [] else i # range_step (i + k) n k)"
  by pat_completeness auto
termination
  by (relation "measure (\<lambda>(i, n, k). n - i)") auto

declare range_step.simps [simp del]

section \<open>get_gmail.py\<close>

subsection \<open>The mail service and the libraries\<close>

text \<open>
  A MIME part of a message, as the mail service sends it (a JSON object): each selector is
  the entry of that name, \<open>None\<close> when the key is absent. The payload of a message is a
  part too, the only one whose \<open>headers\<close> are read.
\<close>

record part_body =
  data :: "string option"
  attachmentId :: "string option"

datatype header = Header (h_name: "string option") (h_value: "string option")

datatype part =
  Part (mimeType: "string option") (filename: "string option")
       (headers: "header list option") (body: "part_body option") (parts: "part list option")

record message =
  threadId :: "string option"
  payload :: "part option"

text \<open>The response of \<open>attachments().get(...)\<close>, by its \<open>"data"\<close> entry.\<close>

type_synonym attachment = "string option"

text \<open>
  The responses of the other requests; each is modelled by the entries the code reads,
  \<open>None\<close> when the key is absent: a message reference \<open>m\<close> by its \<open>"id"\<close>, a history record
  \<open>h\<close> by its \<open>"messages"\<close>, the history response by its \<open>"history"\<close>, the listing response
  by its \<open>"messages"\<close> and the profile by its \<open>"historyId"\<close>.
\<close>

type_synonym message_ref = "string option"
type_synonym history_record = "message_ref list option"
type_synonym history_response = "history_record list option"
type_synonym list_response = "message_ref list option"
type_synonym profile = "string option"

text \<open>
  The mail service: the outcome of \<open>.execute()\<close> for each request the program builds, an
  exception or the response. \<open>history_list\<close> takes \<open>startHistoryId\<close>, \<open>messages_list\<close>
  takes \<open>maxResults\<close>, \<open>messages_get\<close> the message id, \<open>attachments_get\<close> the message id
  and the attachment id.
\<close>

record service =
  history_list :: "string \<Rightarrow> exn + history_response"
  messages_list :: "int \<Rightarrow> exn + list_response"
  get_profile :: "exn + profile"
  messages_get :: "string \<Rightarrow> exn + message"
  attachments_get :: "string \<Rightarrow> string \<Rightarrow> exn + attachment"

type_synonym bytes = string

text \<open>
  A parsed PDF, as \<open>PyPDF2.PdfReader\<close> shows it to the program: \<open>metadata\<close> is the outcome
  of reading \<open>reader.metadata\<close> (\<open>None\<close>, or the entries with their \<open>str\<close> values),
  \<open>num_pages\<close> the outcome of \<open>len(reader.pages)\<close>, and \<open>page_text i\<close> the outcome of
  \<open>reader.pages[i].extract_text()\<close>, an exception or the text (empty when the page gives
  none).
\<close>

record pdf_reader =
  metadata :: "exn + (string \<times> string) list option"
  num_pages :: "exn + nat"
  page_text :: "nat \<Rightarrow> exn + string"

text \<open>A reply fragment of \<open>email_reply_parser\<close>.\<close>

record fragment =
  content :: string
  quoted :: bool

text \<open>
  The libraries: \<open>b64decode\<close> is \<open>base64.urlsafe_b64decode\<close>, \<open>decode_ignore\<close> is
  \<open>bytes.decode(errors="ignore")\<close>, \<open>PdfReader\<close> is \<open>PdfReader(io.BytesIO(data))\<close>,
  \<open>Document\<close> is \<open>docx.Document(data)\<close> followed by reading the text of every paragraph,
  and \<open>fragments\<close> is \<open>EmailReplyParser.read(body).fragments\<close>.
\<close>

record libs =
  b64decode :: "string \<Rightarrow> exn + bytes"
  decode_ignore :: "bytes \<Rightarrow> string"
  PdfReader :: "bytes \<Rightarrow> exn + pdf_reader"
  Document :: "bytes \<Rightarrow> exn + string list"
  fragments :: "string \<Rightarrow> fragment list"

subsection \<open>chunk_text\<close>

text \<open>
  \<^verbatim>\<open>
  def chunk_text(text, chunk_size=500):
      words = text.split()
      for i in range(0, len(words), chunk_size):
          yield " ".join(words[i : i + chunk_size])
  \<close>
  The generator is modelled by the list of the values it yields. \<open>range\<close> raises
  \<open>ValueError\<close> for a zero step and is empty for a negative one.
\<close>

definition chunk_text :: "string \<Rightarrow> int \<Rightarrow> exn + string list" where
  "chunk_text text chunk_size =
     (let words = split_ws text in
      if chunk_size = 0 then Inl (ValueError ''range() arg 3 must not be zero'')
      else if chunk_size < 0 then Inr []
      else Inr (map (\<lambda>i. join '' '' (take (nat chunk_size) (drop i words)))
                  (range_step 0 (length words) (nat chunk_size))))"

subsection \<open>fetch_new_messages\<close>

text \<open>The requests \<open>fetch_new_messages\<close> can execute, as the service sees them.\<close>

datatype call = HistoryList string | MessagesList int | GetProfile


text \<open>The state around a run: the content of \<open>HISTORY_FILE\<close> (\<open>None\<close> when the file does not
  exist) and the requests executed so far.\<close>

record world =
  history_file :: "string option"
  calls :: "call list"

text \<open>\<open>[m["id"] for m in ms]\<close>; a reference without \<open>"id"\<close> raises \<open>KeyError\<close>.\<close>

fun ref_ids :: "message_ref list \<Rightarrow> exn + string list" where
  "ref_ids [] = Inr []"
| "ref_ids (m # ms) =
     (case m of
        None \<Rightarrow> Inl (KeyError ''id'')
      | Some i \<Rightarrow> (case ref_ids ms of Inl e \<Rightarrow> Inl e | Inr r \<Rightarrow> Inr (i # r)))"

text \<open>
  \<^verbatim>\<open>
  for h in history["history"]:
      for m in h.get("messages", []):
          message_ids.append(m["id"])
  \<close>
\<close>

fun history_ids :: "history_record list \<Rightarrow> exn + string list" where
  "history_ids [] = Inr []"
| "history_ids (h # hs) =
     (case ref_ids (case h of None \<Rightarrow> [] | Some ms \<Rightarrow> ms) of
        Inl e \<Rightarrow> Inl e
      | Inr a \<Rightarrow> (case history_ids hs of Inl e \<Rightarrow> Inl e | Inr b \<Rightarrow> Inr (a @ b)))"

text \<open>The first half of \<open>fetch_new_messages\<close>: the value of \<open>message_ids\<close> before the test
  \<open>if not message_ids\<close>, \<open>None\<close> or a list. Any exception inside the \<open>try\<close> gives \<open>None\<close>.\<close>

definition incremental_ids :: "service \<Rightarrow> world \<Rightarrow> world \<times> string list option" where
  "incremental_ids service w =
     (case history_file w of
        Some stored \<Rightarrow>
          (let last_history_id = strip stored;
               w' = w\<lparr>calls := calls w @ [HistoryList last_history_id]\<rparr>
           in case history_list service last_history_id of
                Inl e \<Rightarrow> (w', None)
              | Inr history \<Rightarrow>
                  (case history_ids (case history of None \<Rightarrow> [] | Some hs \<Rightarrow> hs) of
                     Inl e \<Rightarrow> (w', None)
                   | Inr ids \<Rightarrow> (w', Some ids)))
      | None \<Rightarrow> (w, None))"

text \<open>\<open>not message_ids\<close>: true for \<open>None\<close> and for the empty list.\<close>

fun not_ids :: "string list option \<Rightarrow> bool" where
  "not_ids None = True"
| "not_ids (Some ids) = (ids = [])"

text \<open>
  \<^verbatim>\<open>
  if not message_ids:
      results = service.users().messages().list(userId="me", maxResults=max_results).execute()
      message_ids = [m["id"] for m in results.get("messages", [])]
  profile = service.users().getProfile(userId="me").execute()
  with open(HISTORY_FILE, "w") as f:
      f.write(profile["historyId"])
  return message_ids
  \<close>
\<close>

definition save_cursor :: "service \<Rightarrow> world \<Rightarrow> string list \<Rightarrow> world \<times> (exn + string list)" where
  "save_cursor service w message_ids =
     (let w' = w\<lparr>calls := calls w @ [GetProfile]\<rparr>
      in case get_profile service of
           Inl e \<Rightarrow> (w', Inl e)
         | Inr None \<Rightarrow> (w'\<lparr>history_file := Some []\<rparr>, Inl (KeyError ''historyId''))
         | Inr (Some h) \<Rightarrow> (w'\<lparr>history_file := Some h\<rparr>, Inr message_ids))"

definition fetch_new_messages :: "service \<Rightarrow> int \<Rightarrow> world \<Rightarrow> world \<times> (exn + string list)" where
  "fetch_new_messages service max_results w =
     (case incremental_ids service w of
        (w1, message_ids) \<Rightarrow>
          if not_ids message_ids then
            (let w2 = w1\<lparr>calls := calls w1 @ [MessagesList max_results]\<rparr>
             in case messages_list service max_results of
                  Inl e \<Rightarrow> (w2, Inl e)
                | Inr results \<Rightarrow>
                    (case ref_ids (case results of None \<Rightarrow> [] | Some ms \<Rightarrow> ms) of
                       Inl e \<Rightarrow> (w2, Inl e)
                     | Inr ids \<Rightarrow> save_cursor service w2 ids))
          else save_cursor service w1 (the message_ids))"

text \<open>A mailbox with a stored cursor, no change since the cursor, and two recent messages.\<close>

definition quiet_service :: service where
  "quiet_service =
     \<lparr>history_list = (\<lambda>start. Inr None),
      messages_list = (\<lambda>n. Inr (Some [Some ''m1'', Some ''m2''])),
      get_profile = Inr (Some ''1001''),
      messages_get = (\<lambda>i. Inl (Error ''not found'')),
      attachments_get = (\<lambda>m a. Inl (Error ''not found''))\<rparr>"

definition quiet_world :: world where
  "quiet_world = \<lparr>history_file = Some ''1000'', calls = []\<rparr>"

subsection \<open>strip_quoted_and_signature\<close>

text \<open>
  \<^verbatim>\<open>
  def strip_quoted_and_signature(body):
      parsed = EmailReplyParser.read(body).fragments
      cleaned = "\n".join(f.content for f in parsed if not f.quoted)
      for marker in ["\n--", "\nThanks", "\nBest regards", "\nSent from my"]:
          if marker in cleaned:
              cleaned = cleaned.split(marker)[0]
      return cleaned.strip()
  \<close>
\<close>

definition markers :: "string list" where
  "markers = [''\<newline>--'', ''\<newline>Thanks'', ''\<newline>Best regards'', ''\<newline>Sent from my'']"

text \<open>One round of the loop over the markers.\<close>

definition cut_marker :: "string \<Rightarrow> string \<Rightarrow> string" where
  "cut_marker cleaned marker = (if contains marker cleaned then split_head marker cleaned else cleaned)"

definition strip_quoted_and_signature :: "libs \<Rightarrow> string \<Rightarrow> string" where
  "strip_quoted_and_signature lib body_text =
     (let parsed = fragments lib body_text;
          cleaned = join ''\<newline>'' (map content (filter (\<lambda>f. \<not> quoted f) parsed));
          cleaned = foldl cut_marker cleaned markers
      in strip cleaned)"

subsection \<open>Text of a PDF or DOCX attachment\<close>

definition truncation_marker :: string where
  "truncation_marker = ''\<newline>[Content truncated due to size limit]''"

text \<open>
  The loop over the pages, the same in \<open>extract_attachment_text\<close> and in \<open>walk_parts\<close>;
  \<open>i\<close> is the loop variable and \<open>text\<close> the text so far.
  \<^verbatim>\<open>
  for i in range(max_pages):
      try:
          page = reader.pages[i]
          page_text = page.extract_text()
          if page_text:
              text += page_text + "\n"
          if len(text) > 100000:  # 100KB limit
              text = text[:100000] + "\n[Content truncated due to size limit]"
              break
      except Exception as e:
          continue
  \<close>
\<close>

function pages_loop :: "pdf_reader \<Rightarrow> nat \<Rightarrow> nat \<Rightarrow> string \<Rightarrow> string" where
  "pages_loop reader max_pages i txt =
     (if max_pages \<le> i then txt
      else case page_text reader i of
             Inl e \<Rightarrow> pages_loop reader max_pages (Suc i) txt
           | Inr t \<Rightarrow>
               (let txt' = (if t \<noteq> [] then txt @ t @ ''\<newline>'' else txt)
                in if 100000 < length txt' then take 100000 txt' @ truncation_marker
                   else pages_loop reader max_pages (Suc i) txt'))"
  by pat_completeness auto
termination
  by (relation "measure (\<lambda>(reader, max_pages, i, txt). max_pages - i)") auto

declare pages_loop.simps [simp del]

text \<open>The body of the outer \<open>try\<close> of the PDF branch in \<open>walk_parts\<close>: an exception
  of the parser or of \<open>len(reader.pages)\<close> leaves the block.\<close>

definition pdf_text :: "libs \<Rightarrow> bytes \<Rightarrow> exn + string" where
  "pdf_text lib file_data =
     and_then (PdfReader lib file_data) (\<lambda>reader.
     and_then (num_pages reader) (\<lambda>n.
       Inr (pages_loop reader (min 50 n) 0 [])))"

text \<open>The same block in \<open>extract_attachment_text\<close>, which first reads the metadata:
  \<^verbatim>\<open>
  if reader.metadata:
      safe_metadata = {}
      for key in ["/Title", "/Author", "/Subject"]:
          if key in reader.metadata:
              safe_metadata[key] = str(reader.metadata[key])[:100]
  \<close>
  \<open>safe_metadata\<close> is not used afterwards.\<close>

definition safe_metadata :: "(string \<times> string) list option \<Rightarrow> (string \<times> string) list" where
  "safe_metadata md =
     (case md of
        None \<Rightarrow> []
      | Some entries \<Rightarrow>
          concat (map (\<lambda>key. case map_of entries key of
                               None \<Rightarrow> []
                             | Some v \<Rightarrow> [(key, take 100 v)])
                      [''/Title'', ''/Author'', ''/Subject'']))"

definition pdf_text_checked :: "libs \<Rightarrow> bytes \<Rightarrow> exn + string" where
  "pdf_text_checked lib file_data =
     and_then (PdfReader lib file_data) (\<lambda>reader.
     and_then (metadata reader) (\<lambda>md.
       let kept = safe_metadata md
       in and_then (num_pages reader) (\<lambda>n.
            Inr (pages_loop reader (min 50 n) 0 []))))"

text \<open>The two \<open>except Exception as e\<close> handlers around the blocks.\<close>

definition pdf_failed :: "exn \<Rightarrow> string" where
  "pdf_failed e = ''[PDF processing failed: '' @ take 100 (exn_str e) @ '']''"

definition docx_failed :: "exn \<Rightarrow> string" where
  "docx_failed e = ''[DOCX processing failed: '' @ take 100 (exn_str e) @ '']''"

text \<open>
  \<^verbatim>\<open>
  def extract_attachment_text(part, filename):
      data = base64.urlsafe_b64decode(part["body"]["attachmentId"])
      if filename.lower().endswith(".pdf"):
          try: ... return text
          except Exception as e:
              return f"[PDF processing failed: {str(e)[:100]}]"
      elif filename.lower().endswith(".docx"):
          try:
              doc = docx.Document(data)
              return "\n".join(p.text for p in doc.paragraphs)
          except Exception as e:
              return f"[DOCX processing failed: {str(e)[:100]}]"
      return ""
  \<close>
  \<open>extract_bytes\<close> is the function from its second line on, \<open>data\<close> being decoded.
\<close>

definition extract_bytes :: "libs \<Rightarrow> bytes \<Rightarrow> string \<Rightarrow> exn + string" where
  "extract_bytes lib file_data fname =
     (if endswith (lower fname) ''.pdf'' then
        (case pdf_text_checked lib file_data of
           Inr txt \<Rightarrow> Inr txt
         | Inl e \<Rightarrow> Inr (pdf_failed e))
      else if endswith (lower fname) ''.docx'' then
        (case Document lib file_data of
           Inr paragraphs \<Rightarrow> Inr (join ''\<newline>'' paragraphs)
         | Inl e \<Rightarrow> Inr (docx_failed e))
      else Inr [])"

definition extract_attachment_text :: "libs \<Rightarrow> part \<Rightarrow> string \<Rightarrow> exn + string" where
  "extract_attachment_text lib p fname =
     and_then (item ''body'' (body p)) (\<lambda>b.
     and_then (item ''attachmentId'' (attachmentId b)) (\<lambda>a.
     and_then (b64decode lib a) (\<lambda>file_data.
       extract_bytes lib file_data fname)))"

subsection \<open>get_email_details\<close>

text \<open>The two variables \<open>walk_parts\<close> updates (\<open>nonlocal body_text, attachments_text\<close>).\<close>

record walk_state =
  body_text :: string
  attachments_text :: "string list"

definition pdf_mime :: string where
  "pdf_mime = ''application/pdf''"

definition docx_mime :: string where
  "docx_mime = ''application/vnd.openxmlformats-officedocument.wordprocessingml.document''"

text \<open>
  The attachment branch of \<open>walk_parts\<close> once the attachment is fetched and decoded:
  \<^verbatim>\<open>
  if filename.lower().endswith(".pdf"):
      try: ... attachments_text.append(text)
      except Exception as e:
          attachments_text.append(f"[PDF processing failed: {str(e)[:100]}]")
  elif filename.lower().endswith(".docx"):
      try:
          doc = docx.Document(file_data)
          attachments_text.append("\n".join(p.text for p in doc.paragraphs))
      except Exception as e:
          attachments_text.append(f"[DOCX processing failed: {str(e)[:100]}]")
  \<close>
  \<open>filename\<close> is \<open>part.get("filename")\<close>: \<open>None.lower()\<close> raises \<open>AttributeError\<close>.
\<close>

definition none_has_no_lower :: string where
  "none_has_no_lower =
     [CHR 0x27] @ ''NoneType'' @ [CHR 0x27] @ '' object has no attribute ''
       @ [CHR 0x27] @ ''lower'' @ [CHR 0x27]"

definition append_attachment :: "libs \<Rightarrow> string option \<Rightarrow> bytes \<Rightarrow> walk_state \<Rightarrow> exn + walk_state" where
  "append_attachment lib fname file_data st =
     (case fname of
        None \<Rightarrow> Inl (AttributeError none_has_no_lower)
      | Some f \<Rightarrow>
          if endswith (lower f) ''.pdf'' then
            (case pdf_text lib file_data of
               Inr txt \<Rightarrow> Inr (st\<lparr>attachments_text := attachments_text st @ [txt]\<rparr>)
             | Inl e \<Rightarrow> Inr (st\<lparr>attachments_text := attachments_text st @ [pdf_failed e]\<rparr>))
          else if endswith (lower f) ''.docx'' then
            (case Document lib file_data of
               Inr paragraphs \<Rightarrow>
                 Inr (st\<lparr>attachments_text := attachments_text st @ [join ''\<newline>'' paragraphs]\<rparr>)
             | Inl e \<Rightarrow> Inr (st\<lparr>attachments_text := attachments_text st @ [docx_failed e]\<rparr>))
          else Inr st)"

text \<open>
  One round of the loop of \<open>walk_parts\<close>, before the recursion into \<open>part["parts"]\<close>:
  \<^verbatim>\<open>
  mime_type = part.get("mimeType", "")
  if mime_type == "text/plain":
      data = part["body"].get("data")
      if data:
          text = base64.urlsafe_b64decode(data).decode(errors="ignore")
          body_text += text
  elif mime_type in ["application/pdf", "application/vnd...document"]:
      filename = part.get("filename")
      attach_id = part["body"].get("attachmentId")
      if attach_id:
          attachment = service.users().messages().attachments().get(
              userId="me", messageId=msg_id, id=attach_id).execute()
          file_data = base64.urlsafe_b64decode(attachment["data"])
          ...
  \<close>
\<close>

definition visit_part :: "service \<Rightarrow> libs \<Rightarrow> string \<Rightarrow> part \<Rightarrow> walk_state \<Rightarrow> exn + walk_state" where
  "visit_part svc lib msg_id p st =
     (let mime_type = (case mimeType p of None \<Rightarrow> [] | Some m \<Rightarrow> m)
      in if mime_type = ''text/plain'' then
           and_then (item ''body'' (body p)) (\<lambda>b.
             if truthy (data b) then
               and_then (b64decode lib (the (data b))) (\<lambda>raw.
                 Inr (st\<lparr>body_text := body_text st @ decode_ignore lib raw\<rparr>))
             else Inr st)
         else if mime_type \<in> set [pdf_mime, docx_mime] then
           and_then (item ''body'' (body p)) (\<lambda>b.
             if truthy (attachmentId b) then
               and_then (attachments_get svc msg_id (the (attachmentId b))) (\<lambda>att.
               and_then (item ''data'' att) (\<lambda>d.
               and_then (b64decode lib d) (\<lambda>file_data.
                 append_attachment lib (filename p) file_data st)))
             else Inr st)
         else Inr st)"

text \<open>
  \<^verbatim>\<open>
  def walk_parts(parts):
      for part in parts:
          ...
          if "parts" in part:
              walk_parts(part["parts"])
  \<close>
\<close>

fun walk_parts :: "service \<Rightarrow> libs \<Rightarrow> string \<Rightarrow> part list \<Rightarrow> walk_state \<Rightarrow> exn + walk_state"
  and walk_part :: "service \<Rightarrow> libs \<Rightarrow> string \<Rightarrow> part \<Rightarrow> walk_state \<Rightarrow> exn + walk_state" where
  "walk_parts svc lib msg_id [] st = Inr st"
| "walk_parts svc lib msg_id (p # ps) st =
     (case walk_part svc lib msg_id p st of
        Inl e \<Rightarrow> Inl e
      | Inr st' \<Rightarrow> walk_parts svc lib msg_id ps st')"
| "walk_part svc lib msg_id (Part mt fn hs b sub) st =
     (case visit_part svc lib msg_id (Part mt fn hs b sub) st of
        Inl e \<Rightarrow> Inl e
      | Inr st' \<Rightarrow> (case sub of None \<Rightarrow> Inr st' | Some ps \<Rightarrow> walk_parts svc lib msg_id ps st'))"

text \<open>\<open>{h["name"]: h["value"] for h in msg["payload"]["headers"]}\<close>: a later header
  replaces an earlier one of the same name.\<close>

fun headers_dict :: "header list \<Rightarrow> (string \<rightharpoonup> string) \<Rightarrow> exn + (string \<rightharpoonup> string)" where
  "headers_dict [] d = Inr d"
| "headers_dict (h # hs) d =
     and_then (item ''name'' (h_name h)) (\<lambda>n.
     and_then (item ''value'' (h_value h)) (\<lambda>v.
       headers_dict hs (d(n \<mapsto> v))))"

text \<open>\<open>d.get(k, "")\<close>\<close>

definition get_or_empty :: "(string \<rightharpoonup> string) \<Rightarrow> string \<Rightarrow> string" where
  "get_or_empty d k = (case d k of None \<Rightarrow> [] | Some v \<Rightarrow> v)"

text \<open>The dictionary \<open>get_email_details\<close> returns.\<close>

record details =
  d_id :: string
  d_thread_id :: "string option"
  d_subject :: string
  d_sender :: string
  d_to :: string
  d_date :: string
  d_text :: string

text \<open>
  \<^verbatim>\<open>
  if "parts" in msg["payload"]:
      walk_parts(msg["payload"]["parts"])
  else:
      data = msg["payload"]["body"].get("data")
      if data:
          body_text = base64.urlsafe_b64decode(data).decode(errors="ignore")
  \<close>
\<close>

definition collect_text :: "service \<Rightarrow> libs \<Rightarrow> string \<Rightarrow> part \<Rightarrow> exn + walk_state" where
  "collect_text svc lib msg_id pl =
     (let st = \<lparr>body_text = [], attachments_text = []\<rparr>
      in case parts pl of
           Some ps \<Rightarrow> walk_parts svc lib msg_id ps st
         | None \<Rightarrow>
             and_then (item ''body'' (body pl)) (\<lambda>b.
               if truthy (data b) then
                 and_then (b64decode lib (the (data b))) (\<lambda>raw.
                   Inr (st\<lparr>body_text := decode_ignore lib raw\<rparr>))
               else Inr st))"

text \<open>
  \<^verbatim>\<open>
  body_text = strip_quoted_and_signature(body_text)
  full_text = f"Subject: {subject}\nFrom: {sender}\nTo: {to}\nDate: {date}\n\n{body_text}"
  if attachments_text:
      full_text += "\n\nAttachments:\n" + "\n".join(attachments_text)
  \<close>
\<close>

definition full_text :: "libs \<Rightarrow> string \<Rightarrow> string \<Rightarrow> string \<Rightarrow> string \<Rightarrow> walk_state \<Rightarrow> string" where
  "full_text lib subject sender to_addr date st =
     (let normalized = strip_quoted_and_signature lib (body_text st);
          doc = ''Subject: '' @ subject @ ''\<newline>From: '' @ sender @ ''\<newline>To: '' @ to_addr
                  @ ''\<newline>Date: '' @ date @ ''\<newline>\<newline>'' @ normalized
      in if attachments_text st \<noteq> []
         then doc @ ''\<newline>\<newline>Attachments:\<newline>'' @ join ''\<newline>'' (attachments_text st)
         else doc)"

definition get_email_details :: "service \<Rightarrow> libs \<Rightarrow> string \<Rightarrow> exn + details" where
  "get_email_details svc lib msg_id =
     and_then (messages_get svc msg_id) (\<lambda>msg.
     and_then (item ''payload'' (payload msg)) (\<lambda>pl.
     and_then (item ''headers'' (headers pl)) (\<lambda>hs.
     and_then (headers_dict hs Map.empty) (\<lambda>hd.
       let subject = get_or_empty hd ''Subject'';
           sender = get_or_empty hd ''From'';
           to_addr = get_or_empty hd ''To'';
           date = get_or_empty hd ''Date'';
           thread_id = threadId msg
       in and_then (collect_text svc lib msg_id pl) (\<lambda>st.
            Inr \<lparr>d_id = msg_id, d_thread_id = thread_id, d_subject = subject,
                 d_sender = sender, d_to = to_addr, d_date = date,
                 d_text = full_text lib subject sender to_addr date st\<rparr>)))))"

subsection \<open>main\<close>

text \<open>
  \<^verbatim>\<open>
  points = []
  point_id_counter = 0
  for idx, msg_id in enumerate(tqdm(message_ids)):
      details = get_email_details(service, msg_id)
      for chunk in chunk_text(details["text"], chunk_size=200):
          vec = model.encode(chunk).tolist()
          points.append(PointStruct(id=point_id_counter, vector=vec, payload=details))
          point_id_counter += 1
  \<close>
  \<open>encode\<close> is the embedding model: an exception or the vector of a chunk.
\<close>

record 'v point_struct =
  ps_id :: nat
  ps_vector :: 'v
  ps_payload :: details

fun embed_chunks ::
  "(string \<Rightarrow> exn + 'v) \<Rightarrow> details \<Rightarrow> string list \<Rightarrow> 'v point_struct list \<Rightarrow> nat
     \<Rightarrow> exn + ('v point_struct list \<times> nat)" where
  "embed_chunks encode det [] points point_id_counter = Inr (points, point_id_counter)"
| "embed_chunks encode det (chunk # chunks) points point_id_counter =
     (case encode chunk of
        Inl e \<Rightarrow> Inl e
      | Inr vec \<Rightarrow>
          embed_chunks encode det chunks
            (points @ [\<lparr>ps_id = point_id_counter, ps_vector = vec, ps_payload = det\<rparr>])
            (Suc point_id_counter))"

fun process_messages ::
  "service \<Rightarrow> libs \<Rightarrow> (string \<Rightarrow> exn + 'v) \<Rightarrow> string list \<Rightarrow> 'v point_struct list \<Rightarrow> nat
     \<Rightarrow> exn + ('v point_struct list \<times> nat)" where
  "process_messages svc lib encode [] points point_id_counter = Inr (points, point_id_counter)"
| "process_messages svc lib encode (msg_id # message_ids) points point_id_counter =
     (case get_email_details svc lib msg_id of
        Inl e \<Rightarrow> Inl e
      | Inr det \<Rightarrow>
          (case chunk_text (d_text det) 200 of
             Inl e \<Rightarrow> Inl e
           | Inr chunks \<Rightarrow>
               (case embed_chunks encode det chunks points point_id_counter of
                  Inl e \<Rightarrow> Inl e
                | Inr (points', counter') \<Rightarrow>
                    process_messages svc lib encode message_ids points' counter')))"

definition main_points ::
  "service \<Rightarrow> libs \<Rightarrow> (string \<Rightarrow> exn + 'v) \<Rightarrow> string list \<Rightarrow> exn + 'v point_struct list" where
  "main_points svc lib encode message_ids =
     (case process_messages svc lib encode message_ids [] 0 of
        Inl e \<Rightarrow> Inl e
      | Inr (points, n) \<Rightarrow> Inr points)"

section \<open>query_qdrant.py\<close>

text \<open>
  A payload value of a stored point (a JSON value): a string, an integer, a boolean, null,
  or any other value (a float, a list, an object), which is kept by its \<open>str(...)\<close> text.
  The payload is the list of its entries, with distinct keys. A point identifier is an
  integer or a UUID string.
\<close>

datatype pvalue = PStr string | PInt int | PBool bool | PNone | POther string

datatype point_id = IntId int | StrId string

record point =
  pt_id :: point_id
  pt_payload :: "(string \<times> pvalue) list"

text \<open>The store: the outcome of \<open>client.scroll(collection_name, limit, offset,
  with_payload=True, with_vectors=False)[0]\<close>, an exception or the page of points.\<close>

record client =
  scroll :: "int \<Rightarrow> int \<Rightarrow> exn + point list"

text \<open>\<open>str(n)\<close> for integers.\<close>

definition digit_char :: "nat \<Rightarrow> char" where
  "digit_char d = ''0123456789'' ! d"

function str_nat :: "nat \<Rightarrow> string" where
  "str_nat n = (if n < 10 then [digit_char n] else str_nat (n div 10) @ [digit_char (n mod 10)])"
  by pat_completeness auto
termination
  by (relation "measure id") auto

declare str_nat.simps [simp del]

definition str_int :: "int \<Rightarrow> string" where
  "str_int i = (if i < 0 then ''-'' @ str_nat (nat (- i)) else str_nat (nat i))"

text \<open>\<open>str(point.id)\<close> and \<open>str(value)\<close> for a value that is not a string.\<close>

fun str_id :: "point_id \<Rightarrow> string" where
  "str_id (IntId i) = str_int i"
| "str_id (StrId s) = s"

fun str_value :: "pvalue \<Rightarrow> string" where
  "str_value (PStr s) = s"
| "str_value (PInt i) = str_int i"
| "str_value (PBool b) = (if b then ''True'' else ''False'')"
| "str_value PNone = ''None''"
| "str_value (POther s) = s"

text \<open>\<open>isinstance(value, str)\<close>\<close>

fun is_str :: "pvalue \<Rightarrow> bool" where
  "is_str (PStr s) = True"
| "is_str v = False"

text \<open>\<open>point.payload.get(key, "")\<close>\<close>

definition payload_get :: "point \<Rightarrow> string \<Rightarrow> pvalue" where
  "payload_get pt key = (case map_of (pt_payload pt) key of None \<Rightarrow> PStr [] | Some v \<Rightarrow> v)"

subsection \<open>query_all_points: the filters\<close>

text \<open>
  \<^verbatim>\<open>
  filter_conditions = []
  if filter_subject:
      filter_conditions.append(FieldCondition(key="subject", match=MatchValue(value=filter_subject)))
  if filter_sender: ...   # key="sender"
  if filter_url: ...      # key="url"
  if filter_category: ... # key="category"
  \<close>
  A condition is the pair of its key and its expected value.
\<close>

definition filter_conditions ::
  "string option \<Rightarrow> string option \<Rightarrow> string option \<Rightarrow> string option \<Rightarrow> (string \<times> string) list" where
  "filter_conditions filter_subject filter_sender filter_url filter_category =
     (if truthy filter_subject then [(''subject'', the filter_subject)] else [])
     @ (if truthy filter_sender then [(''sender'', the filter_sender)] else [])
     @ (if truthy filter_url then [(''url'', the filter_url)] else [])
     @ (if truthy filter_category then [(''category'', the filter_category)] else [])"

text \<open>
  \<^verbatim>\<open>
  for point in points:
      matches = True
      for condition in filter_conditions:
          key = condition.key
          expected_value = condition.match.value
          actual_value = point.payload.get(key, "")
          if isinstance(actual_value, str) and isinstance(expected_value, str):
              if expected_value.lower() not in actual_value.lower():
                  matches = False
                  break
          else:
              if actual_value != expected_value:
                  matches = False
                  break
      if matches:
          filtered_points.append(point)
  \<close>
  The expected value is always a string.
\<close>

definition condition_holds :: "point \<Rightarrow> string \<times> string \<Rightarrow> bool" where
  "condition_holds pt condition =
     (let key = fst condition;
          expected_value = snd condition;
          actual_value = payload_get pt key
      in if is_str actual_value
         then contains (lower expected_value) (lower (str_value actual_value))
         else actual_value = PStr expected_value)"

fun matches :: "point \<Rightarrow> (string \<times> string) list \<Rightarrow> bool" where
  "matches pt [] = True"
| "matches pt (condition # conditions) =
     (if \<not> condition_holds pt condition then False else matches pt conditions)"

fun filtered_points :: "(string \<times> string) list \<Rightarrow> point list \<Rightarrow> point list" where
  "filtered_points conditions [] = []"
| "filtered_points conditions (pt # points) =
     (if matches pt conditions then pt # filtered_points conditions points
      else filtered_points conditions points)"

text \<open>The points \<open>query_all_points\<close> goes on to render: the page of the store, filtered
  when there is a condition.\<close>

definition select_points ::
  "client \<Rightarrow> int \<Rightarrow> int \<Rightarrow> string option \<Rightarrow> string option \<Rightarrow> string option \<Rightarrow> string option
     \<Rightarrow> exn + point list" where
  "select_points cl limit offset filter_subject filter_sender filter_url filter_category =
     (let conditions = filter_conditions filter_subject filter_sender filter_url filter_category
      in and_then (scroll cl limit offset) (\<lambda>points.
           if conditions \<noteq> [] then Inr (filtered_points conditions points) else Inr points))"

subsection \<open>query_all_points: the CSV encoding\<close>

text \<open>
  \<^verbatim>\<open>
  all_keys = set()
  for point in points:
      all_keys.update(point.payload.keys())
  sorted_keys = sorted(all_keys)
  print("id," + ",".join(f'"{key}"' for key in sorted_keys))
  for point in points:
      row = [str(point.id)]
      for key in sorted_keys:
          value = point.payload.get(key, "")
          if isinstance(value, str):
              value = value.replace('"', '""')
              row.append(f'"{value}"')
          else:
              row.append(f'"{str(value)}"')
      print(",".join(row))
  \<close>
\<close>

definition dq :: char where
  "dq = CHR 0x22"

definition quoted_text :: "string \<Rightarrow> string" where
  "quoted_text s = [dq] @ s @ [dq]"

text \<open>\<open>value.replace('"', '""')\<close>\<close>

fun double_quotes :: "string \<Rightarrow> string" where
  "double_quotes [] = []"
| "double_quotes (c # cs) = (if c = dq then dq # dq # double_quotes cs else c # double_quotes cs)"

definition sorted_keys :: "point list \<Rightarrow> string list" where
  "sorted_keys points = sort (remdups (concat (map (\<lambda>pt. map fst (pt_payload pt)) points)))"

definition csv_header :: "string list \<Rightarrow> string" where
  "csv_header keys = ''id,'' @ join '','' (map quoted_text keys)"

definition csv_cell :: "pvalue \<Rightarrow> string" where
  "csv_cell v = (if is_str v then quoted_text (double_quotes (str_value v))
                 else quoted_text (str_value v))"

definition csv_fields :: "string list \<Rightarrow> point \<Rightarrow> string list" where
  "csv_fields keys pt = str_id (pt_id pt) # map (\<lambda>key. csv_cell (payload_get pt key)) keys"

definition csv_row :: "string list \<Rightarrow> point \<Rightarrow> string" where
  "csv_row keys pt = join '','' (csv_fields keys pt)"

definition csv_lines :: "point list \<Rightarrow> string list" where
  "csv_lines points =
     (if points \<noteq> []
      then csv_header (sorted_keys points) # map (csv_row (sorted_keys points)) points
      else [])"

text \<open>
  What \<open>query_all_points\<close> prints with \<open>output_format="csv"\<close>, line by line (the table and
  JSON encodings are not modelled); an exception ends in the handler that prints the error
  and exits.
  \<^verbatim>\<open>
  if not points:
      print("No points found in the collection.")
      return
  print(f"Found {len(points)} points (limit: {limit}, offset: {offset})")
  print("-" * 80)
  \<close>
\<close>

definition query_all_points_csv ::
  "client \<Rightarrow> int \<Rightarrow> int \<Rightarrow> string option \<Rightarrow> string option \<Rightarrow> string option \<Rightarrow> string option
     \<Rightarrow> exn + string list" where
  "query_all_points_csv cl limit offset filter_subject filter_sender filter_url filter_category =
     and_then (select_points cl limit offset filter_subject filter_sender filter_url filter_category)
       (\<lambda>points.
          if points = [] then Inr [''No points found in the collection.'']
          else Inr ([''Found '' @ str_int (int (length points)) @ '' points (limit: ''
                       @ str_int limit @ '', offset: '' @ str_int offset @ '')'',
                     replicate 80 CHR ''-'']
                    @ csv_lines points))"

section \<open>Sample collaborators\<close>

text \<open>Concrete readers and libraries on which the properties below are run: a PDF whose
  first page fails, one whose first page is longer than the limit, and libraries that decode
  every string to itself and treat a body as one unquoted fragment.\<close>

definition demo_reader :: pdf_reader where
  "demo_reader =
     \<lparr>metadata = Inr None, num_pages = Inr 3,
      page_text = (\<lambda>i. if i = 0 then Inl (Error ''bad page'')
                       else if i = 1 then Inr ''ab'' else Inr [])\<rparr>"

definition long_reader :: pdf_reader where
  "long_reader =
     \<lparr>metadata = Inr None, num_pages = Inr 2,
      page_text = (\<lambda>i. if i = 0 then Inr (replicate 100001 CHR ''a'') else Inr ''zz'')\<rparr>"

definition demo_libs :: "pdf_reader \<Rightarrow> libs" where
  "demo_libs reader =
     \<lparr>b64decode = Inr, decode_ignore = (\<lambda>raw. raw),
      PdfReader = (\<lambda>file_data. Inr reader),
      Document = (\<lambda>file_data. Inl (Error ''File is not a zip file'')),
      fragments = (\<lambda>b. [\<lparr>content = b, quoted = False\<rparr>])\<rparr>"

definition broken_libs :: libs where
  "broken_libs =
     \<lparr>b64decode = Inr, decode_ignore = (\<lambda>raw. raw),
      PdfReader = (\<lambda>file_data. Inl (Error ''EOF marker not found'')),
      Document = (\<lambda>file_data. Inl (Error ''File is not a zip file'')),
      fragments = (\<lambda>b. [\<lparr>content = b, quoted = False\<rparr>])\<rparr>"

definition blank_reader :: pdf_reader where
  "blank_reader = \<lparr>metadata = Inr None, num_pages = Inr 0, page_text = (\<lambda>i. Inr [])\<rparr>"

definition office_libs :: libs where
  "office_libs =
     \<lparr>b64decode = Inr, decode_ignore = (\<lambda>raw. raw),
      PdfReader = (\<lambda>file_data. Inr blank_reader),
      Document = (\<lambda>file_data. Inr [''Quarterly'', ''numbers'']),
      fragments = (\<lambda>b. [\<lparr>content = b, quoted = False\<rparr>])\<rparr>"

definition text_part :: "string \<Rightarrow> part" where
  "text_part d =
     Part (Some ''text/plain'') (Some []) None (Some \<lparr>data = Some d, attachmentId = None\<rparr>) None"

definition file_part :: "string \<Rightarrow> string option \<Rightarrow> part" where
  "file_part mt fn = Part (Some mt) fn None (Some \<lparr>data = None, attachmentId = Some ''att-1''\<rparr>) None"

definition multipart :: "header list option \<Rightarrow> part list \<Rightarrow> part" where
  "multipart hs ps =
     Part (Some ''multipart/mixed'') (Some []) hs (Some \<lparr>data = None, attachmentId = None\<rparr>) (Some ps)"

definition report_headers :: "header list" where
  "report_headers =
     [Header (Some ''Subject'') (Some ''Report''), Header (Some ''From'') (Some ''a@x.org'')]"

text \<open>Five messages: \<open>m1\<close> carries a PDF without any page, \<open>m2\<close> a DOCX beside a nested
  part, \<open>m3\<close> a PDF part that has no filename entry, the document of \<open>m4\<close> has 201
  words, and \<open>m5\<close> is a single-part message: its payload has no \<open>parts\<close> and is itself a
  PDF part with an attachment id and no filename entry.\<close>

definition blank_pdf_message :: message where
  "blank_pdf_message =
     \<lparr>threadId = Some ''t1'',
      payload = Some (multipart (Some report_headers)
                       [text_part ''Hello'', file_part pdf_mime (Some ''blank.pdf'')])\<rparr>"

definition docx_message :: message where
  "docx_message =
     \<lparr>threadId = Some ''t2'',
      payload = Some (multipart (Some report_headers)
                       [multipart None [text_part ''Hi''], file_part docx_mime (Some ''cv.DOCX'')])\<rparr>"

definition nameless_message :: message where
  "nameless_message =
     \<lparr>threadId = Some ''t3'',
      payload = Some (multipart (Some report_headers)
                       [text_part ''Hello'', file_part pdf_mime None])\<rparr>"

definition long_body :: string where
  "long_body = concat (replicate 194 ''w '') @ ''w''"

definition long_message :: message where
  "long_message =
     \<lparr>threadId = Some ''t4'',
      payload = Some (multipart (Some report_headers) [text_part long_body])\<rparr>"

definition long_details :: details where
  "long_details =
     \<lparr>d_id = ''m4'', d_thread_id = Some ''t4'', d_subject = ''Report'', d_sender = ''a@x.org'',
      d_to = [], d_date = [],
      d_text = ''Subject: Report\<newline>From: a@x.org\<newline>To: \<newline>Date: \<newline>\<newline>'' @ long_body\<rparr>"

definition bare_pdf_part :: part where
  "bare_pdf_part =
     Part (Some pdf_mime) None (Some report_headers)
          (Some \<lparr>data = None, attachmentId = Some ''att-1''\<rparr>) None"

definition bare_pdf_message :: message where
  "bare_pdf_message = \<lparr>threadId = Some ''t5'', payload = Some bare_pdf_part\<rparr>"



definition mail_service :: service where
  "mail_service =
     \<lparr>history_list = (\<lambda>start. Inr None),
      messages_list = (\<lambda>n. Inr None),
      get_profile = Inr (Some ''1001''),
      messages_get = (\<lambda>i. if i = ''m1'' then Inr blank_pdf_message
                           else if i = ''m2'' then Inr docx_message
                           else if i = ''m3'' then Inr nameless_message
                           else if i = ''m4'' then Inr long_message
                           else if i = ''m5'' then Inr bare_pdf_message
                           else Inl (Error ''Not Found'')),
      attachments_get = (\<lambda>m a. Inr (Some ''JVBERi0=''))\<rparr>"

text \<open>A store with three points that differ in their sender.\<close>

definition sender_point :: "int \<Rightarrow> string \<Rightarrow> point" where
  "sender_point i s = \<lparr>pt_id = IntId i, pt_payload = [(''subject'', PStr ''Hi''), (''sender'', PStr s)]\<rparr>"

definition three_points :: "point list" where
  "three_points =
     [sender_point 1 ''John Doe <john@example.com>'',
      sender_point 2 ''Jane <jane@example.com>'',
      sender_point 3 ''J <JOHN@EXAMPLE.COM>'']"

definition three_client :: client where
  "three_client = \<lparr>scroll = (\<lambda>limit offset. Inr three_points)\<rparr>"

text \<open>Two points, the second without sender and with double quotes in its subject; and
  a store with a single point.\<close>

definition two_points :: "point list" where
  "two_points =
     [\<lparr>pt_id = IntId 1, pt_payload = [(''subject'', PStr ''Hi''), (''sender'', PStr ''a@x.org'')]\<rparr>,
      \<lparr>pt_id = IntId 2, pt_payload = [(''subject'', PStr (''Say '' @ [dq] @ ''yes'' @ [dq]))]\<rparr>]"

definition two_client :: client where
  "two_client = \<lparr>scroll = (\<lambda>limit offset. Inr two_points)\<rparr>"

definition one_client :: client where
  "one_client =
     \<lparr>scroll = (\<lambda>limit offset.
        Inr [\<lparr>pt_id = IntId 1, pt_payload = [(''subject'', PStr ''Hi'')]\<rparr>])\<rparr>"

section \<open>Notions used in the properties\<close>

text \<open>A word: not empty and free of whitespace.\<close>

definition word_ok :: "string \<Rightarrow> bool" where
  "word_ok w = (w \<noteq> [] \<and> (\<forall>c\<in>set w. \<not> is_space c))"


text \<open>
  The page loop, said in words: \<open>page_part\<close> is what page \<open>i\<close> adds to the text (nothing when
  its extraction fails or gives no text), \<open>accumulated reader j\<close> the text of the first \<open>j\<close>
  pages, \<open>overflow_page\<close> the first page after which that text is longer than 100000
  characters, \<open>pages_read\<close> the number of pages looked at, and \<open>pages_result\<close> the text
  returned.
\<close>

definition page_part :: "pdf_reader \<Rightarrow> nat \<Rightarrow> string" where
  "page_part reader i =
     (case page_text reader i of Inl e \<Rightarrow> [] | Inr t \<Rightarrow> if t = [] then [] else t @ ''\<newline>'')"

definition accumulated :: "pdf_reader \<Rightarrow> nat \<Rightarrow> string" where
  "accumulated reader j = concat (map (page_part reader) [0..<j])"

definition overflow_page :: "pdf_reader \<Rightarrow> nat \<Rightarrow> nat option" where
  "overflow_page reader m = List.find (\<lambda>j. 100000 < length (accumulated reader (Suc j))) [0..<m]"

definition pages_read :: "pdf_reader \<Rightarrow> nat \<Rightarrow> nat" where
  "pages_read reader m = (case overflow_page reader m of None \<Rightarrow> m | Some j \<Rightarrow> Suc j)"

definition pages_result :: "pdf_reader \<Rightarrow> nat \<Rightarrow> string" where
  "pages_result reader m =
     (case overflow_page reader m of
        None \<Rightarrow> accumulated reader m
      | Some j \<Rightarrow> take 100000 (accumulated reader (Suc j)) @ truncation_marker)"


text \<open>The text before the leftmost occurrence of any of the markers \<open>ms\<close>.\<close>

fun before_markers :: "string list \<Rightarrow> string \<Rightarrow> string" where
  "before_markers ms [] = []"
| "before_markers ms (c # cs) =
     (if \<exists>m\<in>set ms. prefix m (c # cs) then [] else c # before_markers ms cs)"


text \<open>
  The walk of the part tree, said in words: \<open>preorder\<close> lists the parts depth first, a part
  before its sub-parts; \<open>visit_all\<close> handles the parts of a list one after the other;
  \<open>part_output\<close> is what one part adds to the two texts, and \<open>extend\<close> adds it.
  \<open>nameless_attachment\<close> holds of a PDF or DOCX part with an attachment id and no
  \<open>filename\<close> entry.
\<close>

fun preorder :: "part list \<Rightarrow> part list" and preorder_part :: "part \<Rightarrow> part list" where
  "preorder [] = []"
| "preorder (p # ps) = preorder_part p @ preorder ps"
| "preorder_part (Part mt fn hs b sub) =
     Part mt fn hs b sub # (case sub of None \<Rightarrow> [] | Some ps \<Rightarrow> preorder ps)"

fun visit_all :: "service \<Rightarrow> libs \<Rightarrow> string \<Rightarrow> part list \<Rightarrow> walk_state \<Rightarrow> exn + walk_state" where
  "visit_all svc lib msg_id [] st = Inr st"
| "visit_all svc lib msg_id (p # ps) st =
     (case visit_part svc lib msg_id p st of
        Inl e \<Rightarrow> Inl e
      | Inr st' \<Rightarrow> visit_all svc lib msg_id ps st')"


definition no_text :: walk_state where
  "no_text = \<lparr>body_text = [], attachments_text = []\<rparr>"

definition part_output :: "service \<Rightarrow> libs \<Rightarrow> string \<Rightarrow> part \<Rightarrow> walk_state" where
  "part_output svc lib msg_id p =
     (case visit_part svc lib msg_id p no_text of Inl e \<Rightarrow> no_text | Inr out \<Rightarrow> out)"

definition extend :: "walk_state \<Rightarrow> walk_state \<Rightarrow> walk_state" where
  "extend st out =
     \<lparr>body_text = body_text st @ body_text out,
      attachments_text = attachments_text st @ attachments_text out\<rparr>"


text \<open>A point matches a filter value on a payload field, said in words: the lower-cased
  value occurs in the lower-cased field when the field is a string (a missing field is the
  empty string), and equals the field when it is not a string.\<close>

definition field_matches :: "point \<Rightarrow> string \<Rightarrow> string \<Rightarrow> bool" where
  "field_matches pt key v =
     (case map_of (pt_payload pt) key of
        None \<Rightarrow> contains (lower v) (lower [])
      | Some (PStr s) \<Rightarrow> contains (lower v) (lower s)
      | Some other \<Rightarrow> other = PStr v)"


text \<open>Reading an escaped CSV value back: every doubled double quote becomes one.\<close>

fun undouble :: "string \<Rightarrow> string" where
  "undouble (c # d # cs) = (if c = dq \<and> d = dq then dq # undouble cs else c # undouble (d # cs))"
| "undouble cs = cs"

section \<open>Properties\<close>

subsection \<open>Sync Tracker\<close>

text \<open>
  C1. The claim: with a prior cursor and a change-log query that succeeds with zero
  "message added" events, \<open>fetch_new_messages\<close> returns no message identifier and never
  runs the fallback listing. On the code, the empty list of that case is as false as
  \<open>None\<close> in \<open>if not message_ids\<close>: the listing of the latest messages is requested and its
  identifiers are returned.
\<close>

theorem fetch_new_messages_empty_history_lists_latest:
  "incremental_ids quiet_service quiet_world =
     (\<lparr>history_file = Some ''1000'', calls = [HistoryList ''1000'']\<rparr>, Some [])
   \<and> fetch_new_messages quiet_service 50 quiet_world =
     (\<lparr>history_file = Some ''1001'',
       calls = [HistoryList ''1000'', MessagesList 50, GetProfile]\<rparr>,
      Inr [''m1'', ''m2''])"
  by (simp add: fetch_new_messages_def incremental_ids_def save_cursor_def quiet_service_def
      quiet_world_def strip_def is_space_def)

subsection \<open>Chunker\<close>

lemma split_acc_words:
  "(\<forall>c\<in>set cur. \<not> is_space c) \<Longrightarrow> w \<in> set (split_acc cur s) \<Longrightarrow> word_ok w"
proof (induction s arbitrary: cur)
  case Nil
  then show ?case by (cases "cur = []") (simp_all add: word_ok_def)
next
  case (Cons c cs)
  show ?case
  proof (cases "is_space c")
    case True
    show ?thesis
    proof (cases "cur = []")
      case True
      with \<open>is_space c\<close> Cons.prems(2) have "w \<in> set (split_acc [] cs)" by simp
      then show ?thesis using Cons.IH[of "[]"] by simp
    next
      case False
      with \<open>is_space c\<close> Cons.prems(2) have "w = cur \<or> w \<in> set (split_acc [] cs)" by simp
      then show ?thesis using Cons.IH[of "[]"] False Cons.prems(1) by (auto simp: word_ok_def)
    qed
  next
    case False
    with Cons.prems(2) have "w \<in> set (split_acc (cur @ [c]) cs)" by simp
    moreover have "\<forall>x\<in>set (cur @ [c]). \<not> is_space x" using False Cons.prems(1) by simp
    ultimately show ?thesis using Cons.IH[of "cur @ [c]"] by blast
  qed
qed


lemma split_ws_words: "w \<in> set (split_ws s) \<Longrightarrow> word_ok w"
  using split_acc_words[of "[]" w s] by (simp add: split_ws_def)

lemma split_acc_append_word:
  "(\<forall>c\<in>set w. \<not> is_space c) \<Longrightarrow> split_acc cur (w @ s) = split_acc (cur @ w) s"
  by (induction w arbitrary: cur) auto

lemma is_space_blank: "is_space CHR '' ''"
  by (simp add: is_space_def)

lemma split_acc_join:
  "(\<forall>w\<in>set ws. word_ok w) \<Longrightarrow> split_acc [] (join '' '' ws) = ws"
proof (induction "'' ''" ws rule: join.induct)
  case 1
  then show ?case by simp
next
  case (2 x)
  then have "split_acc [] (x @ []) = split_acc ([] @ x) []"
    by (intro split_acc_append_word) (simp add: word_ok_def)
  with 2 show ?case by (simp add: word_ok_def)
next
  case (3 x y ys)
  have x: "word_ok x" using 3 by simp
  then have "split_acc [] (x @ '' '' @ join '' '' (y # ys)) = split_acc ([] @ x) ('' '' @ join '' '' (y # ys))"
    by (intro split_acc_append_word) (simp add: word_ok_def)
  also have "\<dots> = x # split_acc [] (join '' '' (y # ys))"
    using x by (simp add: word_ok_def is_space_blank)
  finally show ?case using 3 by simp
qed

lemma split_ws_join: "(\<forall>w\<in>set ws. word_ok w) \<Longrightarrow> split_ws (join '' '' ws) = ws"
  by (simp add: split_ws_def split_acc_join)

lemma split_acc_all_space:
  "(\<forall>c\<in>set s. is_space c) \<Longrightarrow> split_acc [] s = []"
  by (induction s) auto

lemma join_append:
  "xs \<noteq> [] \<Longrightarrow> ys \<noteq> [] \<Longrightarrow> join sep (xs @ ys) = join sep xs @ sep @ join sep ys"
proof (induction sep xs rule: join.induct)
  case (2 sep x)
  then show ?case by (cases ys) auto
qed auto


lemma range_step_stop: "k = 0 \<or> n \<le> i \<Longrightarrow> range_step i n k = []"
  by (subst range_step.simps) simp

lemma range_step_go: "0 < k \<Longrightarrow> i < n \<Longrightarrow> range_step i n k = i # range_step (i + k) n k"
  by (subst range_step.simps) simp

lemma range_step_nth:
  "j < length (range_step i n k) \<Longrightarrow> range_step i n k ! j = i + j * k \<and> i + j * k < n"
proof (induction i n k arbitrary: j rule: range_step.induct)
  case (1 i n k)
  show ?case
  proof (cases "k = 0 \<or> n \<le> i")
    case True
    with 1(2) show ?thesis by (simp add: range_step_stop)
  next
    case False
    then have go: "range_step i n k = i # range_step (i + k) n k" by (simp add: range_step_go)
    show ?thesis
    proof (cases j)
      case 0
      with False go show ?thesis by simp
    next
      case (Suc j')
      with 1(2) go have "j' < length (range_step (i + k) n k)" by simp
      from 1(1)[OF False this] Suc go show ?thesis by (simp add: algebra_simps)
    qed
  qed
qed

lemma join_windows:
  "0 < k \<Longrightarrow>
   join sep (map (\<lambda>j. join sep (take k (drop j ws))) (range_step i (length ws) k))
     = join sep (drop i ws)"
proof (induction i "length ws" k rule: range_step.induct)
  case (1 i k)
  show ?case
  proof (cases "length ws \<le> i")
    case True
    then show ?thesis by (simp add: range_step_stop)
  next
    case False
    then have go: "range_step i (length ws) k = i # range_step (i + k) (length ws) k"
      using 1(2) by (simp add: range_step_go)
    let ?rest = "map (\<lambda>j. join sep (take k (drop j ws))) (range_step (i + k) (length ws) k)"
    have ih: "join sep ?rest = join sep (drop (i + k) ws)"
      using 1 False by simp
    have hd_ne: "take k (drop i ws) \<noteq> []" using False 1(2) by simp
    show ?thesis
    proof (cases "length ws \<le> i + k")
      case True
      then have "range_step (i + k) (length ws) k = []" by (simp add: range_step_stop)
      moreover have "take k (drop i ws) = drop i ws" using True by simp
      ultimately show ?thesis using go by simp
    next
      case F2: False
      then have "range_step (i + k) (length ws) k \<noteq> []" using 1(2) by (simp add: range_step_go)
      then obtain r rs where rr: "?rest = r # rs" by (cases "range_step (i + k) (length ws) k") auto
      have dne: "drop (i + k) ws \<noteq> []" using F2 by simp
      have "join sep (map (\<lambda>j. join sep (take k (drop j ws))) (range_step i (length ws) k))
            = join sep (join sep (take k (drop i ws)) # ?rest)"
        using go by simp
      also have "\<dots> = join sep (take k (drop i ws)) @ sep @ join sep ?rest"
        by (simp add: rr)
      also have "\<dots> = join sep (take k (drop i ws)) @ sep @ join sep (drop (i + k) ws)"
        by (simp add: ih)
      also have "\<dots> = join sep (take k (drop i ws) @ drop (i + k) ws)"
        using hd_ne dne by (simp add: join_append)
      also have "take k (drop i ws) @ drop (i + k) ws = drop i ws"
        by (metis add.commute append_take_drop_id drop_drop)
      finally show ?thesis .
    qed
  qed
qed

lemma window_words:
  "w \<in> set (take k (drop j (split_ws text))) \<Longrightarrow> word_ok w"
  by (meson in_set_dropD in_set_takeD split_ws_words)

lemma split_ws_window:
  "split_ws (join '' '' (take k (drop j (split_ws text)))) = take k (drop j (split_ws text))"
  by (rule split_ws_join) (simp add: window_words)

lemma join_nonempty: "ws \<noteq> [] \<Longrightarrow> \<forall>w\<in>set ws. w \<noteq> [] \<Longrightarrow> join sep ws \<noteq> []"
  by (induction sep ws rule: join.induct) auto

lemma range_step_mem: "j \<in> set (range_step i n k) \<Longrightarrow> j < n"
  by (metis in_set_conv_nth range_step_nth)

text \<open>
  C4. For every document and every chunk size \<open>K > 0\<close>, \<open>chunk_text\<close> yields a finite list
  of chunks; joining the chunks with single spaces gives the whitespace-collapsed document
  (its words joined with single spaces); every chunk but the last has exactly \<open>K\<close> words,
  every chunk has at least one and at most \<open>K\<close>; and a document without a word (empty or
  all whitespace) yields the empty list, not an error.
\<close>

theorem chunk_text_partition:
  assumes K: "0 < K"
  shows "\<exists>cs. chunk_text text K = Inr cs
           \<and> join '' '' cs = join '' '' (split_ws text)
           \<and> (\<forall>i. Suc i < length cs \<longrightarrow> length (split_ws (cs ! i)) = nat K)
           \<and> (\<forall>c\<in>set cs. c \<noteq> [] \<and> length (split_ws c) \<le> nat K)
           \<and> ((\<forall>c\<in>set text. is_space c) \<longrightarrow> cs = [])"
proof -
  define ws where "ws = split_ws text"
  define k where "k = nat K"
  define r where "r = range_step 0 (length ws) k"
  define cs where "cs = map (\<lambda>i. join '' '' (take k (drop i ws))) r"
  have k: "0 < k" using K by (simp add: k_def)
  have run: "chunk_text text K = Inr cs"
    using K by (simp add: chunk_text_def cs_def r_def ws_def k_def Let_def)
  have a: "join '' '' cs = join '' '' (split_ws text)"
    using join_windows[OF k, of "'' ''" ws 0] by (simp add: cs_def r_def ws_def)
  have b: "length (split_ws (cs ! i)) = nat K" if "Suc i < length cs" for i
  proof -
    from that have s: "Suc i < length r" and i: "i < length r" by (simp_all add: cs_def)
    from range_step_nth[of "Suc i" 0 "length ws" k] s have "Suc i * k < length ws"
      by (simp add: r_def)
    moreover from range_step_nth[of i 0 "length ws" k] i have "r ! i = i * k"
      by (simp add: r_def)
    ultimately have "length (take k (drop (r ! i) ws)) = k" by simp
    moreover have "cs ! i = join '' '' (take k (drop (r ! i) ws))"
      using i by (simp add: cs_def)
    ultimately show ?thesis by (simp add: ws_def split_ws_window k_def)
  qed
  have c: "c \<noteq> [] \<and> length (split_ws c) \<le> nat K" if "c \<in> set cs" for c
  proof -
    from that obtain j where j: "j \<in> set r" and c: "c = join '' '' (take k (drop j ws))"
      by (auto simp: cs_def)
    from j have "j < length ws" by (simp add: r_def range_step_mem)
    then have ne: "take k (drop j ws) \<noteq> []" using k by simp
    have "\<forall>w\<in>set (take k (drop j ws)). w \<noteq> []"
      using window_words[of _ k j "text"] by (auto simp: ws_def word_ok_def)
    with ne have "c \<noteq> []" unfolding c by (rule join_nonempty)
    moreover have "length (split_ws c) \<le> nat K"
      by (simp add: c ws_def split_ws_window k_def)
    ultimately show ?thesis by simp
  qed
  have d: "cs = []" if "\<forall>c\<in>set text. is_space c"
    using that by (simp add: cs_def r_def ws_def split_ws_def split_acc_all_space range_step_stop)
  from run a b c d show ?thesis by blast
qed

theorem chunk_text_partition_witness:
  "(0::int) < 2 \<and> chunk_text ''a  b c'' 2 = Inr [''a b'', ''c'']
   \<and> join '' '' [''a b'', ''c''] = join '' '' (split_ws ''a  b c'')
   \<and> length (split_ws ''a b'') = 2 \<and> chunk_text ''  '' 2 = Inr []"
proof -
  have e: "chunk_text ''a  b c'' 2 = Inr [''a b'', ''c'']"
    by (simp add: chunk_text_def split_ws_def is_space_def range_step.simps)
  from chunk_text_partition[of 2 "''a  b c''"] chunk_text_partition[of 2 "''  ''"] e
  show ?thesis by (auto simp: is_space_def)
qed

subsection \<open>Attachment Extractor: the page loop\<close>

lemma accumulated_Suc: "accumulated reader (Suc j) = accumulated reader j @ page_part reader j"
  by (simp add: accumulated_def)

lemma pages_loop_from:
  "i \<le> m \<Longrightarrow> length (accumulated reader i) \<le> 100000 \<Longrightarrow>
   pages_loop reader m i (accumulated reader i) =
     (case List.find (\<lambda>j. 100000 < length (accumulated reader (Suc j))) [i..<m] of
        None \<Rightarrow> accumulated reader m
      | Some j \<Rightarrow> take 100000 (accumulated reader (Suc j)) @ truncation_marker)"
proof (induction "m - i" arbitrary: i)
  case 0
  then have "i = m" by simp
  then show ?case by (subst pages_loop.simps) simp
next
  case (Suc d)
  then have lt: "i < m" by simp
  then have upt: "[i..<m] = i # [Suc i..<m]" by (simp add: upt_conv_Cons)
  have d: "d = m - Suc i" using Suc.hyps(2) by simp
  show ?case
  proof (cases "page_text reader i")
    case (Inl e)
    then have same: "accumulated reader (Suc i) = accumulated reader i"
      by (simp add: accumulated_Suc page_part_def)
    have "pages_loop reader m i (accumulated reader i)
            = pages_loop reader m (Suc i) (accumulated reader (Suc i))"
      using lt Inl same by (subst pages_loop.simps) simp
    also have "\<dots> = (case List.find (\<lambda>j. 100000 < length (accumulated reader (Suc j))) [Suc i..<m] of
        None \<Rightarrow> accumulated reader m
      | Some j \<Rightarrow> take 100000 (accumulated reader (Suc j)) @ truncation_marker)"
      using Suc.hyps(1)[OF d] lt Suc.prems(2) same by simp
    finally show ?thesis using same Suc.prems(2) by (simp add: upt)
  next
    case (Inr t)
    then have next_acc: "accumulated reader (Suc i) = (if t \<noteq> [] then accumulated reader i @ t @ ''\<newline>'' else accumulated reader i)"
      by (simp add: accumulated_Suc page_part_def)
    show ?thesis
    proof (cases "100000 < length (accumulated reader (Suc i))")
      case True
      have "pages_loop reader m i (accumulated reader i)
              = take 100000 (accumulated reader (Suc i)) @ truncation_marker"
        using lt Inr True unfolding next_acc by (subst pages_loop.simps) (simp add: Let_def)
      then show ?thesis using True by (simp add: upt)
    next
      case False
      have "pages_loop reader m i (accumulated reader i)
              = pages_loop reader m (Suc i) (accumulated reader (Suc i))"
        using lt Inr False unfolding next_acc by (subst pages_loop.simps) (simp add: Let_def)
      also have "\<dots> = (case List.find (\<lambda>j. 100000 < length (accumulated reader (Suc j))) [Suc i..<m] of
          None \<Rightarrow> accumulated reader m
        | Some j \<Rightarrow> take 100000 (accumulated reader (Suc j)) @ truncation_marker)"
        using Suc.hyps(1)[OF d] lt False by simp
      finally show ?thesis using False by (simp add: upt)
    qed
  qed
qed

lemma pages_loop_result: "pages_loop reader m 0 [] = pages_result reader m"
  using pages_loop_from[of 0 m reader]
  by (simp add: pages_result_def overflow_page_def accumulated_def)

lemma overflow_page_less: "overflow_page reader m = Some j \<Longrightarrow> j < m"
  by (auto simp: overflow_page_def find_Some_iff)

lemma pages_read_le: "pages_read reader m \<le> m"
  by (auto simp: pages_read_def dest: overflow_page_less split: option.splits)

lemma overflow_page_None:
  "overflow_page reader m = None \<Longrightarrow> j < m \<Longrightarrow> length (accumulated reader (Suc j)) \<le> 100000"
proof -
  assume "overflow_page reader m = None" and "j < m"
  then have "\<not> 100000 < length (accumulated reader (Suc j))"
    by (simp add: overflow_page_def find_None_iff)
  then show ?thesis by simp
qed

lemma accumulated_mono: "i \<le> j \<Longrightarrow> length (accumulated reader i) \<le> length (accumulated reader j)"
  by (induction j) (auto simp: accumulated_Suc le_Suc_eq)

lemma pages_result_length: "length (pages_result reader m) \<le> 100000 + length truncation_marker"
proof (cases "overflow_page reader m")
  case None
  show ?thesis
  proof (cases m)
    case 0
    with None show ?thesis by (simp add: pages_result_def accumulated_def)
  next
    case (Suc k)
    with overflow_page_None[OF None, of k] None show ?thesis by (simp add: pages_result_def)
  qed
next
  case (Some j)
  then show ?thesis by (simp add: pages_result_def)
qed

lemma accumulated_cong:
  "(\<And>i. i < j \<Longrightarrow> page_text r' i = page_text r i) \<Longrightarrow> accumulated r' j = accumulated r j"
  by (induction j) (simp_all add: accumulated_def page_part_def)

lemma pdf_failed_length: "length (pdf_failed e) \<le> 125"
  by (simp add: pdf_failed_def)

lemma docx_failed_length: "length (docx_failed e) \<le> 126"
  by (simp add: docx_failed_def)

lemma truncation_marker_length: "length truncation_marker = 38"
  by (simp add: truncation_marker_def)

lemma pdf_text_cases:
  "(\<exists>e. pdf_text lib file_data = Inl e)
   \<or> (\<exists>reader n. PdfReader lib file_data = Inr reader \<and> num_pages reader = Inr n
         \<and> pdf_text lib file_data = Inr (pages_result reader (min 50 n)))"
  by (auto simp: pdf_text_def and_then_def pages_loop_result split: sum.splits)

lemma pdf_text_checked_cases:
  "(\<exists>e. pdf_text_checked lib file_data = Inl e)
   \<or> (\<exists>reader n. PdfReader lib file_data = Inr reader \<and> num_pages reader = Inr n
         \<and> pdf_text_checked lib file_data = Inr (pages_result reader (min 50 n)))"
  by (auto simp: pdf_text_checked_def and_then_def pages_loop_result split: sum.splits)

lemma pdf_text_length:
  "pdf_text lib file_data = Inr t \<Longrightarrow> length t \<le> 100000 + length truncation_marker"
  using pdf_text_cases[of lib file_data] by (auto simp: pages_result_length)

lemma pdf_text_checked_length:
  "pdf_text_checked lib file_data = Inr t \<Longrightarrow> length t \<le> 100000 + length truncation_marker"
  using pdf_text_checked_cases[of lib file_data] by (auto simp: pages_result_length)

lemma extract_bytes_pdf:
  "endswith (lower fname) ''.pdf'' \<Longrightarrow>
   extract_bytes lib file_data fname =
     Inr (case pdf_text_checked lib file_data of Inr t \<Rightarrow> t | Inl e \<Rightarrow> pdf_failed e)"
  by (simp add: extract_bytes_def split: sum.splits)

lemma append_attachment_pdf:
  "endswith (lower fname) ''.pdf'' \<Longrightarrow>
   append_attachment lib (Some fname) file_data st =
     Inr (st\<lparr>attachments_text := attachments_text st
            @ [case pdf_text lib file_data of Inr t \<Rightarrow> t | Inl e \<Rightarrow> pdf_failed e]\<rparr>)"
  by (simp add: append_attachment_def split: sum.splits)

lemma pdf_branch_length:
  "length (case pdf_text lib file_data of Inr t \<Rightarrow> t | Inl e \<Rightarrow> pdf_failed e)
     \<le> 100000 + length truncation_marker"
proof (cases "pdf_text lib file_data")
  case (Inl e)
  have "length (pdf_failed e) \<le> 125" by (rule pdf_failed_length)
  then show ?thesis using Inl by (simp add: truncation_marker_length)
next
  case (Inr t)
  then show ?thesis using pdf_text_length[OF Inr] by simp
qed

lemma pdf_checked_branch_length:
  "length (case pdf_text_checked lib file_data of Inr t \<Rightarrow> t | Inl e \<Rightarrow> pdf_failed e)
     \<le> 100000 + length truncation_marker"
proof (cases "pdf_text_checked lib file_data")
  case (Inl e)
  have "length (pdf_failed e) \<le> 125" by (rule pdf_failed_length)
  then show ?thesis using Inl by (simp add: truncation_marker_length)
next
  case (Inr t)
  then show ?thesis using pdf_text_checked_length[OF Inr] by simp
qed

lemma pages_of_parsed_pdf:
  assumes rd: "PdfReader lib file_data = Inr reader" and np: "num_pages reader = Inr n"
  shows "pdf_text lib file_data = Inr (pages_result reader (min 50 n))
       \<and> (\<forall>md. metadata reader = Inr md \<longrightarrow>
              pdf_text_checked lib file_data = Inr (pages_result reader (min 50 n)))
       \<and> pages_read reader (min 50 n) \<le> 50
       \<and> length (pages_result reader (min 50 n)) \<le> 100000 + length truncation_marker
       \<and> (\<forall>j. overflow_page reader (min 50 n) = Some j \<longrightarrow>
              length (pages_result reader (min 50 n)) = 100000 + length truncation_marker)
       \<and> (\<forall>reader'. (\<forall>i < pages_read reader (min 50 n). page_text reader' i = page_text reader i)
            \<longrightarrow> pages_loop reader' (min 50 n) 0 [] = pages_result reader (min 50 n))
       \<and> (\<forall>i e. page_text reader i = Inl e \<longrightarrow> accumulated reader (Suc i) = accumulated reader i)"
proof -
  let ?m = "min 50 n"
  have 1: "pdf_text lib file_data = Inr (pages_result reader ?m)"
    by (simp add: pdf_text_def and_then_def rd np pages_loop_result)
  have 2: "pdf_text_checked lib file_data = Inr (pages_result reader ?m)"
    if "metadata reader = Inr md" for md
    using that by (simp add: pdf_text_checked_def and_then_def rd np pages_loop_result)
  have 3: "pages_read reader ?m \<le> 50"
    using pages_read_le[of reader ?m] by simp
  have 4: "length (pages_result reader ?m) \<le> 100000 + length truncation_marker"
    by (rule pages_result_length)
  have 7: "length (pages_result reader ?m) = 100000 + length truncation_marker"
    if ov: "overflow_page reader ?m = Some j" for j
  proof -
    from ov have "100000 < length (accumulated reader (Suc j))"
      by (auto simp: overflow_page_def find_Some_iff)
    then show ?thesis by (simp add: pages_result_def ov)
  qed
  have 5: "pages_loop reader' ?m 0 [] = pages_result reader ?m"
    if same: "\<forall>i < pages_read reader ?m. page_text reader' i = page_text reader i" for reader'
  proof -
    have acc: "accumulated reader' j = accumulated reader j" if "j \<le> pages_read reader ?m" for j
      using that same by (intro accumulated_cong) simp
    show ?thesis
    proof (cases "overflow_page reader ?m")
      case None
      then have pr: "pages_read reader ?m = ?m" by (simp add: pages_read_def)
      have "overflow_page reader' ?m = None"
      proof -
        have "\<not> 100000 < length (accumulated reader' (Suc j))" if j: "j < ?m" for j
        proof -
          have "accumulated reader' (Suc j) = accumulated reader (Suc j)"
            using acc[of "Suc j"] pr j by simp
          then show ?thesis using overflow_page_None[OF None j] by simp
        qed
        then show ?thesis by (simp add: overflow_page_def find_None_iff)
      qed
      then show ?thesis
        using None acc[of ?m] pr by (simp add: pages_loop_result pages_result_def)
    next
      case (Some k)
      then have pr: "pages_read reader ?m = Suc k" by (simp add: pages_read_def)
      from Some have k: "k < ?m" by (rule overflow_page_less)
      from Some have over: "100000 < length (accumulated reader (Suc k))"
        and before: "\<forall>j<k. \<not> 100000 < length (accumulated reader (Suc j))"
        by (auto simp: overflow_page_def find_Some_iff)
      have "overflow_page reader' ?m = Some k"
        unfolding overflow_page_def find_Some_iff
      proof (intro exI[of _ k] conjI)
        show "k < length [0..<?m]" using k by simp
        show "100000 < length (accumulated reader' (Suc ([0..<?m] ! k)))"
          using over acc[of "Suc k"] pr k by simp
        show "k = [0..<?m] ! k" using k by simp
        show "\<forall>j<k. \<not> 100000 < length (accumulated reader' (Suc ([0..<?m] ! j)))"
        proof (intro allI impI)
          fix j assume j: "j < k"
          then have "accumulated reader' (Suc j) = accumulated reader (Suc j)"
            using acc[of "Suc j"] pr by simp
          then show "\<not> 100000 < length (accumulated reader' (Suc ([0..<?m] ! j)))"
            using before j k by simp
        qed
      qed
      then show ?thesis
        using Some acc[of "Suc k"] pr by (simp add: pages_loop_result pages_result_def)
    qed
  qed
  have 6: "accumulated reader (Suc i) = accumulated reader i" if "page_text reader i = Inl e" for i e
    using that by (simp add: accumulated_Suc page_part_def)
  from 1 2 3 4 5 6 7 show ?thesis by blast
qed



text \<open>
  C3. For every PDF attachment input the text that comes back, whether returned by
  \<open>extract_attachment_text\<close> or appended by \<open>walk_parts\<close>, is never longer than 100000
  characters plus the truncation marker. When the file parses, that text is
  \<open>pages_result\<close> over the first \<open>min 50 n\<close> pages: at most 50 pages are read and the text
  does not depend on any page beyond those read; the accumulated text starts empty, a page
  with text adds its text and a newline, a page without text or whose extraction fails
  adds nothing and the loop goes on with the next page; once the accumulated text is
  longer than 100000 characters the text returned is its first 100000 characters followed
  by the marker (exactly 100000 plus the marker's length) and no later page is read;
  otherwise it is the accumulated text of all \<open>min 50 n\<close> pages.
\<close>

theorem pdf_pages_bounded:
  "(endswith (lower fname) ''.pdf'' \<longrightarrow>
      (\<exists>t. extract_bytes lib file_data fname = Inr t
           \<and> length t \<le> 100000 + length truncation_marker)
    \<and> (\<exists>t. append_attachment lib (Some fname) file_data st
               = Inr (st\<lparr>attachments_text := attachments_text st @ [t]\<rparr>)
           \<and> length t \<le> 100000 + length truncation_marker)
    \<and> (PdfReader lib file_data = Inr reader \<and> num_pages reader = Inr n \<longrightarrow>
          append_attachment lib (Some fname) file_data st
            = Inr (st\<lparr>attachments_text := attachments_text st
                     @ [pages_result reader (min 50 n)]\<rparr>)
        \<and> (\<forall>md. metadata reader = Inr md \<longrightarrow>
              extract_bytes lib file_data fname = Inr (pages_result reader (min 50 n)))))
   \<and> (PdfReader lib file_data = Inr reader \<and> num_pages reader = Inr n \<longrightarrow>
        pdf_text lib file_data = Inr (pages_result reader (min 50 n))
      \<and> (\<forall>md. metadata reader = Inr md \<longrightarrow>
             pdf_text_checked lib file_data = Inr (pages_result reader (min 50 n)))
      \<and> pages_read reader (min 50 n) \<le> 50
      \<and> (\<forall>j. overflow_page reader (min 50 n) = Some j \<longrightarrow>
             pages_result reader (min 50 n)
               = take 100000 (accumulated reader (Suc j)) @ truncation_marker
           \<and> length (pages_result reader (min 50 n)) = 100000 + length truncation_marker)
      \<and> (overflow_page reader (min 50 n) = None \<longrightarrow>
             pages_result reader (min 50 n) = accumulated reader (min 50 n))
      \<and> (\<forall>reader'. (\<forall>i < pages_read reader (min 50 n). page_text reader' i = page_text reader i)
             \<longrightarrow> pages_loop reader' (min 50 n) 0 [] = pages_result reader (min 50 n))
      \<and> accumulated reader 0 = []
      \<and> (\<forall>i t. page_text reader i = Inr t \<longrightarrow>
             accumulated reader (Suc i)
               = accumulated reader i @ (if t = [] then [] else t @ ''\<newline>''))
      \<and> (\<forall>i e. page_text reader i = Inl e \<longrightarrow>
             accumulated reader (Suc i) = accumulated reader i))"
proof -
  have a1: "\<exists>t. extract_bytes lib file_data fname = Inr t
           \<and> length t \<le> 100000 + length truncation_marker"
    if pdf: "endswith (lower fname) ''.pdf''"
    using extract_bytes_pdf[OF pdf] pdf_checked_branch_length by blast
  have a2: "\<exists>t. append_attachment lib (Some fname) file_data st
               = Inr (st\<lparr>attachments_text := attachments_text st @ [t]\<rparr>)
           \<and> length t \<le> 100000 + length truncation_marker"
    if pdf: "endswith (lower fname) ''.pdf''"
    using append_attachment_pdf[OF pdf] pdf_branch_length by blast
  have a3: "append_attachment lib (Some fname) file_data st
            = Inr (st\<lparr>attachments_text := attachments_text st
                     @ [pages_result reader (min 50 n)]\<rparr>)
        \<and> (\<forall>md. metadata reader = Inr md \<longrightarrow>
              extract_bytes lib file_data fname = Inr (pages_result reader (min 50 n)))"
    if pdf: "endswith (lower fname) ''.pdf''"
      and rd: "PdfReader lib file_data = Inr reader" and np: "num_pages reader = Inr n"
  proof -
    note parsed = pages_of_parsed_pdf[OF rd np]
    have t1: "pdf_text lib file_data = Inr (pages_result reader (min 50 n))"
      using parsed by blast
    have t2: "pdf_text_checked lib file_data = Inr (pages_result reader (min 50 n))"
      if "metadata reader = Inr md" for md
      using parsed that by blast
    have "append_attachment lib (Some fname) file_data st
            = Inr (st\<lparr>attachments_text := attachments_text st
                     @ [pages_result reader (min 50 n)]\<rparr>)"
      by (simp add: append_attachment_pdf[OF pdf] t1)
    moreover have "\<forall>md. metadata reader = Inr md \<longrightarrow>
              extract_bytes lib file_data fname = Inr (pages_result reader (min 50 n))"
      by (simp add: extract_bytes_pdf[OF pdf] t2)
    ultimately show ?thesis by (rule conjI)
  qed
  have b: "pdf_text lib file_data = Inr (pages_result reader (min 50 n))
      \<and> (\<forall>md. metadata reader = Inr md \<longrightarrow>
             pdf_text_checked lib file_data = Inr (pages_result reader (min 50 n)))
      \<and> pages_read reader (min 50 n) \<le> 50
      \<and> (\<forall>j. overflow_page reader (min 50 n) = Some j \<longrightarrow>
             pages_result reader (min 50 n)
               = take 100000 (accumulated reader (Suc j)) @ truncation_marker
           \<and> length (pages_result reader (min 50 n)) = 100000 + length truncation_marker)
      \<and> (overflow_page reader (min 50 n) = None \<longrightarrow>
             pages_result reader (min 50 n) = accumulated reader (min 50 n))
      \<and> (\<forall>reader'. (\<forall>i < pages_read reader (min 50 n). page_text reader' i = page_text reader i)
             \<longrightarrow> pages_loop reader' (min 50 n) 0 [] = pages_result reader (min 50 n))
      \<and> accumulated reader 0 = []
      \<and> (\<forall>i t. page_text reader i = Inr t \<longrightarrow>
             accumulated reader (Suc i)
               = accumulated reader i @ (if t = [] then [] else t @ ''\<newline>''))
      \<and> (\<forall>i e. page_text reader i = Inl e \<longrightarrow>
             accumulated reader (Suc i) = accumulated reader i)"
    if rd: "PdfReader lib file_data = Inr reader" and np: "num_pages reader = Inr n"
  proof -
    note parsed = pages_of_parsed_pdf[OF rd np]
    have b1: "pdf_text lib file_data = Inr (pages_result reader (min 50 n))"
      using parsed by blast
    have b2: "\<forall>md. metadata reader = Inr md \<longrightarrow>
             pdf_text_checked lib file_data = Inr (pages_result reader (min 50 n))"
      using parsed by blast
    have b3: "pages_read reader (min 50 n) \<le> 50"
      using parsed by blast
    have b4: "\<forall>j. overflow_page reader (min 50 n) = Some j \<longrightarrow>
             pages_result reader (min 50 n)
               = take 100000 (accumulated reader (Suc j)) @ truncation_marker
           \<and> length (pages_result reader (min 50 n)) = 100000 + length truncation_marker"
    proof (intro allI impI)
      fix j assume ov: "overflow_page reader (min 50 n) = Some j"
      then have "length (pages_result reader (min 50 n)) = 100000 + length truncation_marker"
        using parsed by blast
      moreover have "pages_result reader (min 50 n)
               = take 100000 (accumulated reader (Suc j)) @ truncation_marker"
        by (simp add: pages_result_def ov)
      ultimately show "pages_result reader (min 50 n)
               = take 100000 (accumulated reader (Suc j)) @ truncation_marker
           \<and> length (pages_result reader (min 50 n)) = 100000 + length truncation_marker"
        by simp
    qed
    have b5: "overflow_page reader (min 50 n) = None \<longrightarrow>
             pages_result reader (min 50 n) = accumulated reader (min 50 n)"
      by (simp add: pages_result_def)
    have b6: "\<forall>reader'. (\<forall>i < pages_read reader (min 50 n). page_text reader' i = page_text reader i)
             \<longrightarrow> pages_loop reader' (min 50 n) 0 [] = pages_result reader (min 50 n)"
      using parsed by blast
    have b7: "\<forall>i e. page_text reader i = Inl e \<longrightarrow>
             accumulated reader (Suc i) = accumulated reader i"
      using parsed by blast
    have b8: "accumulated reader 0 = []"
      by (simp add: accumulated_def)
    have b9: "\<forall>i t. page_text reader i = Inr t \<longrightarrow>
             accumulated reader (Suc i)
               = accumulated reader i @ (if t = [] then [] else t @ ''\<newline>'')"
      by (simp add: accumulated_Suc page_part_def)
    from b1 b2 b3 b4 b5 b6 b8 b9 b7 show ?thesis by (intro conjI)
  qed
  from a1 a2 a3 b show ?thesis by blast
qed

lemma demo_run: "pages_loop demo_reader 3 0 [] = ''ab\<newline>''"
  by (simp add: pages_loop.simps demo_reader_def)

lemma long_run: "pages_loop long_reader 2 0 [] = replicate 100000 CHR ''a'' @ truncation_marker"
  by (simp add: pages_loop.simps long_reader_def)

lemma scan_pdf: "endswith (lower ''scan.PDF'') ''.pdf''"
  by (simp add: endswith_def lower_def lower_char_def suffix_to_prefix)

theorem pdf_pages_bounded_witness:
  "endswith (lower ''scan.PDF'') ''.pdf''
   \<and> PdfReader (demo_libs demo_reader) ''%PDF'' = Inr demo_reader \<and> num_pages demo_reader = Inr 3
   \<and> metadata demo_reader = Inr None
   \<and> page_text demo_reader 0 = Inl (Error ''bad page'') \<and> page_text demo_reader 1 = Inr ''ab''
   \<and> pages_result demo_reader (min 50 3) = ''ab\<newline>''
   \<and> extract_bytes (demo_libs demo_reader) ''%PDF'' ''scan.PDF'' = Inr ''ab\<newline>''
   \<and> append_attachment (demo_libs demo_reader) (Some ''scan.PDF'') ''%PDF''
         \<lparr>body_text = ''Hello'', attachments_text = []\<rparr>
       = Inr \<lparr>body_text = ''Hello'', attachments_text = [''ab\<newline>'']\<rparr>
   \<and> PdfReader (demo_libs long_reader) ''%PDF'' = Inr long_reader \<and> num_pages long_reader = Inr 2
   \<and> metadata long_reader = Inr None
   \<and> overflow_page long_reader (min 50 2) = Some 0
   \<and> pages_result long_reader (min 50 2) = replicate 100000 CHR ''a'' @ truncation_marker
   \<and> extract_bytes (demo_libs long_reader) ''%PDF'' ''scan.PDF''
       = Inr (replicate 100000 CHR ''a'' @ truncation_marker)
   \<and> append_attachment (demo_libs long_reader) (Some ''scan.PDF'') ''%PDF''
         \<lparr>body_text = ''Hello'', attachments_text = []\<rparr>
       = Inr \<lparr>body_text = ''Hello'',
              attachments_text = [replicate 100000 CHR ''a'' @ truncation_marker]\<rparr>"
proof -
  have a: "PdfReader (demo_libs demo_reader) ''%PDF'' = Inr demo_reader" "num_pages demo_reader = Inr 3"
    by (simp_all add: demo_libs_def demo_reader_def)
  have a': "metadata demo_reader = Inr None" "page_text demo_reader 0 = Inl (Error ''bad page'')"
    "page_text demo_reader 1 = Inr ''ab''"
    by (simp_all add: demo_reader_def)
  have b: "PdfReader (demo_libs long_reader) ''%PDF'' = Inr long_reader" "num_pages long_reader = Inr 2"
    by (simp_all add: demo_libs_def long_reader_def)
  have b': "metadata long_reader = Inr None"
    by (simp add: long_reader_def)
  have c: "pages_result demo_reader (min 50 3) = ''ab\<newline>''"
    using pages_loop_result[of demo_reader 3] by (simp add: demo_run)
  have d: "pages_result long_reader (min 50 2) = replicate 100000 CHR ''a'' @ truncation_marker"
    using pages_loop_result[of long_reader 2] by (simp add: long_run)
  have "accumulated long_reader (Suc 0) = replicate 100001 CHR ''a'' @ ''\<newline>''"
    by (simp add: accumulated_def page_part_def long_reader_def)
  then have e: "overflow_page long_reader (min 50 2) = Some 0"
    by (simp add: overflow_page_def upt_rec)
  from pdf_pages_bounded[of "''scan.PDF''" "demo_libs demo_reader" "''%PDF''"
      "\<lparr>body_text = ''Hello'', attachments_text = []\<rparr>" demo_reader 3]
    pdf_pages_bounded[of "''scan.PDF''" "demo_libs long_reader" "''%PDF''"
      "\<lparr>body_text = ''Hello'', attachments_text = []\<rparr>" long_reader 2]
    scan_pdf a a' b b' c d e
  show ?thesis by simp
qed

subsection \<open>Attachment Extractor: failures\<close>

lemma extract_bytes_docx:
  "\<not> endswith (lower fname) ''.pdf'' \<Longrightarrow> endswith (lower fname) ''.docx'' \<Longrightarrow>
   extract_bytes lib file_data fname =
     Inr (case Document lib file_data of Inr ps \<Rightarrow> join ''\<newline>'' ps | Inl e \<Rightarrow> docx_failed e)"
  by (simp add: extract_bytes_def split: sum.splits)

lemma append_attachment_docx:
  "\<not> endswith (lower fname) ''.pdf'' \<Longrightarrow> endswith (lower fname) ''.docx'' \<Longrightarrow>
   append_attachment lib (Some fname) file_data st =
     Inr (st\<lparr>attachments_text := attachments_text st
            @ [case Document lib file_data of Inr ps \<Rightarrow> join ''\<newline>'' ps | Inl e \<Rightarrow> docx_failed e]\<rparr>)"
  by (simp add: append_attachment_def split: sum.splits)

lemma extract_bytes_other:
  "\<not> endswith (lower fname) ''.pdf'' \<Longrightarrow> \<not> endswith (lower fname) ''.docx'' \<Longrightarrow>
   extract_bytes lib file_data fname = Inr []"
  by (simp add: extract_bytes_def)

lemma append_attachment_other:
  "\<not> endswith (lower fname) ''.pdf'' \<Longrightarrow> \<not> endswith (lower fname) ''.docx'' \<Longrightarrow>
   append_attachment lib (Some fname) file_data st = Inr st"
  by (simp add: append_attachment_def)

lemma extract_attachment_text_decoded:
  "body p = Some b \<Longrightarrow> attachmentId b = Some a \<Longrightarrow> b64decode lib a = Inr file_data \<Longrightarrow>
   extract_attachment_text lib p fname = extract_bytes lib file_data fname"
  by (simp add: extract_attachment_text_def and_then_def item_def)

text \<open>
  C2. For every attachment byte payload and every filename, the extractor returns a text
  and raises nothing, both as \<open>extract_attachment_text\<close> (once the payload is decoded) and
  as the branch of \<open>walk_parts\<close>, which appends the text. When the PDF or DOCX block raises
  (a document that does not parse), the text is the placeholder of at most 126 characters;
  when the PDF parses, the text is that of the page loop, in which a failing page adds
  nothing; a filename that ends neither in .pdf nor in .docx gives the empty text (and
  appends nothing in \<open>walk_parts\<close>).
\<close>

theorem extractor_never_raises:
  "(\<exists>t. extract_bytes lib file_data fname = Inr t)
   \<and> (\<exists>st'. append_attachment lib (Some fname) file_data st = Inr st')
   \<and> (body p = Some b \<and> attachmentId b = Some a \<and> b64decode lib a = Inr file_data \<longrightarrow>
        extract_attachment_text lib p fname = extract_bytes lib file_data fname)
   \<and> (endswith (lower fname) ''.pdf'' \<longrightarrow>
        (\<forall>e. pdf_text_checked lib file_data = Inl e \<longrightarrow>
           extract_bytes lib file_data fname = Inr (pdf_failed e))
      \<and> (\<forall>e. pdf_text lib file_data = Inl e \<longrightarrow>
           append_attachment lib (Some fname) file_data st
             = Inr (st\<lparr>attachments_text := attachments_text st @ [pdf_failed e]\<rparr>))
      \<and> (\<forall>e. PdfReader lib file_data = Inl e \<longrightarrow>
           pdf_text_checked lib file_data = Inl e \<and> pdf_text lib file_data = Inl e)
      \<and> (\<forall>reader n md. PdfReader lib file_data = Inr reader \<and> metadata reader = Inr md
             \<and> num_pages reader = Inr n \<longrightarrow>
           extract_bytes lib file_data fname = Inr (pages_result reader (min 50 n))
         \<and> append_attachment lib (Some fname) file_data st
             = Inr (st\<lparr>attachments_text := attachments_text st
                      @ [pages_result reader (min 50 n)]\<rparr>)
         \<and> (\<forall>i e. page_text reader i = Inl e \<longrightarrow>
               accumulated reader (Suc i) = accumulated reader i)))
   \<and> (\<not> endswith (lower fname) ''.pdf'' \<and> endswith (lower fname) ''.docx'' \<longrightarrow>
        (\<forall>e. Document lib file_data = Inl e \<longrightarrow>
           extract_bytes lib file_data fname = Inr (docx_failed e)
         \<and> append_attachment lib (Some fname) file_data st
             = Inr (st\<lparr>attachments_text := attachments_text st @ [docx_failed e]\<rparr>))
      \<and> (\<forall>ps. Document lib file_data = Inr ps \<longrightarrow>
           extract_bytes lib file_data fname = Inr (join ''\<newline>'' ps)
         \<and> append_attachment lib (Some fname) file_data st
             = Inr (st\<lparr>attachments_text := attachments_text st @ [join ''\<newline>'' ps]\<rparr>)))
   \<and> (\<not> endswith (lower fname) ''.pdf'' \<and> \<not> endswith (lower fname) ''.docx'' \<longrightarrow>
        extract_bytes lib file_data fname = Inr []
      \<and> append_attachment lib (Some fname) file_data st = Inr st)
   \<and> length (pdf_failed e) \<le> 126 \<and> length (docx_failed e) \<le> 126"
proof -
  have never: "\<exists>t. extract_bytes lib file_data fname = Inr t"
    by (simp add: extract_bytes_def split: sum.splits)
  have never': "\<exists>st'. append_attachment lib (Some fname) file_data st = Inr st'"
    by (simp add: append_attachment_def split: sum.splits)
  have dec: "body p = Some b \<and> attachmentId b = Some a \<and> b64decode lib a = Inr file_data \<longrightarrow>
        extract_attachment_text lib p fname = extract_bytes lib file_data fname"
    using extract_attachment_text_decoded by blast
  have pdf: "(\<forall>e. pdf_text_checked lib file_data = Inl e \<longrightarrow>
           extract_bytes lib file_data fname = Inr (pdf_failed e))
      \<and> (\<forall>e. pdf_text lib file_data = Inl e \<longrightarrow>
           append_attachment lib (Some fname) file_data st
             = Inr (st\<lparr>attachments_text := attachments_text st @ [pdf_failed e]\<rparr>))
      \<and> (\<forall>e. PdfReader lib file_data = Inl e \<longrightarrow>
           pdf_text_checked lib file_data = Inl e \<and> pdf_text lib file_data = Inl e)
      \<and> (\<forall>reader n md. PdfReader lib file_data = Inr reader \<and> metadata reader = Inr md
             \<and> num_pages reader = Inr n \<longrightarrow>
           extract_bytes lib file_data fname = Inr (pages_result reader (min 50 n))
         \<and> append_attachment lib (Some fname) file_data st
             = Inr (st\<lparr>attachments_text := attachments_text st
                      @ [pages_result reader (min 50 n)]\<rparr>)
         \<and> (\<forall>i e. page_text reader i = Inl e \<longrightarrow>
               accumulated reader (Suc i) = accumulated reader i))"
    if is_pdf: "endswith (lower fname) ''.pdf''"
  proof -
    have p1: "\<forall>e. pdf_text_checked lib file_data = Inl e \<longrightarrow>
           extract_bytes lib file_data fname = Inr (pdf_failed e)"
      by (simp add: extract_bytes_pdf[OF is_pdf])
    have p2: "\<forall>e. pdf_text lib file_data = Inl e \<longrightarrow>
           append_attachment lib (Some fname) file_data st
             = Inr (st\<lparr>attachments_text := attachments_text st @ [pdf_failed e]\<rparr>)"
      by (simp add: append_attachment_pdf[OF is_pdf])
    have p3: "\<forall>e. PdfReader lib file_data = Inl e \<longrightarrow>
           pdf_text_checked lib file_data = Inl e \<and> pdf_text lib file_data = Inl e"
      by (simp add: pdf_text_checked_def pdf_text_def and_then_def)
    have p4: "\<forall>reader n md. PdfReader lib file_data = Inr reader \<and> metadata reader = Inr md
             \<and> num_pages reader = Inr n \<longrightarrow>
           extract_bytes lib file_data fname = Inr (pages_result reader (min 50 n))
         \<and> append_attachment lib (Some fname) file_data st
             = Inr (st\<lparr>attachments_text := attachments_text st
                      @ [pages_result reader (min 50 n)]\<rparr>)
         \<and> (\<forall>i e. page_text reader i = Inl e \<longrightarrow>
               accumulated reader (Suc i) = accumulated reader i)"
      by (simp add: extract_bytes_pdf[OF is_pdf] append_attachment_pdf[OF is_pdf]
          pdf_text_checked_def pdf_text_def and_then_def pages_loop_result accumulated_Suc
          page_part_def)
    from p1 p2 p3 p4 show ?thesis by (intro conjI)
  qed
  have docx: "(\<forall>e. Document lib file_data = Inl e \<longrightarrow>
           extract_bytes lib file_data fname = Inr (docx_failed e)
         \<and> append_attachment lib (Some fname) file_data st
             = Inr (st\<lparr>attachments_text := attachments_text st @ [docx_failed e]\<rparr>))
      \<and> (\<forall>ps. Document lib file_data = Inr ps \<longrightarrow>
           extract_bytes lib file_data fname = Inr (join ''\<newline>'' ps)
         \<and> append_attachment lib (Some fname) file_data st
             = Inr (st\<lparr>attachments_text := attachments_text st @ [join ''\<newline>'' ps]\<rparr>))"
    if "\<not> endswith (lower fname) ''.pdf''" "endswith (lower fname) ''.docx''"
    by (simp add: extract_bytes_docx[OF that] append_attachment_docx[OF that])
  have other: "extract_bytes lib file_data fname = Inr []
      \<and> append_attachment lib (Some fname) file_data st = Inr st"
    if "\<not> endswith (lower fname) ''.pdf''" "\<not> endswith (lower fname) ''.docx''"
    by (simp add: extract_bytes_other[OF that] append_attachment_other[OF that])
  have short: "length (pdf_failed e) \<le> 126" "length (docx_failed e) \<le> 126"
    using pdf_failed_length[of e] docx_failed_length[of e] by simp_all
  from never never' dec pdf docx other short show ?thesis by blast
qed


theorem extractor_never_raises_witness:
  "endswith (lower ''Report.PDF'') ''.pdf''
   \<and> PdfReader (demo_libs demo_reader) ''%PDF'' = Inr demo_reader
   \<and> metadata demo_reader = Inr None \<and> num_pages demo_reader = Inr 3
   \<and> page_text demo_reader 0 = Inl (Error ''bad page'')
   \<and> extract_bytes (demo_libs demo_reader) ''%PDF'' ''Report.PDF'' = Inr ''ab\<newline>''
   \<and> PdfReader broken_libs ''junk'' = Inl (Error ''EOF marker not found'')
   \<and> extract_bytes broken_libs ''junk'' ''Report.PDF''
       = Inr ''[PDF processing failed: EOF marker not found]''
   \<and> \<not> endswith (lower ''cv.docx'') ''.pdf'' \<and> endswith (lower ''cv.docx'') ''.docx''
   \<and> Document broken_libs ''junk'' = Inl (Error ''File is not a zip file'')
   \<and> extract_bytes broken_libs ''junk'' ''cv.docx''
       = Inr ''[DOCX processing failed: File is not a zip file]''
   \<and> \<not> endswith (lower ''notes.txt'') ''.pdf'' \<and> \<not> endswith (lower ''notes.txt'') ''.docx''
   \<and> extract_bytes broken_libs ''junk'' ''notes.txt'' = Inr []"
proof -
  have ends: "endswith (lower ''Report.PDF'') ''.pdf''"
    "\<not> endswith (lower ''cv.docx'') ''.pdf''" "endswith (lower ''cv.docx'') ''.docx''"
    "\<not> endswith (lower ''notes.txt'') ''.pdf''" "\<not> endswith (lower ''notes.txt'') ''.docx''"
    by (simp_all add: endswith_def lower_def lower_char_def suffix_to_prefix)
  have libs: "PdfReader (demo_libs demo_reader) ''%PDF'' = Inr demo_reader"
    "metadata demo_reader = Inr None" "num_pages demo_reader = Inr 3"
    "page_text demo_reader 0 = Inl (Error ''bad page'')"
    "PdfReader broken_libs ''junk'' = Inl (Error ''EOF marker not found'')"
    "Document broken_libs ''junk'' = Inl (Error ''File is not a zip file'')"
    by (simp_all add: demo_libs_def demo_reader_def broken_libs_def)
  have run: "pages_result demo_reader (min 50 3) = ''ab\<newline>''"
    using pages_loop_result[of demo_reader 3] by (simp add: demo_run)
  from extractor_never_raises[of "demo_libs demo_reader" "''%PDF''" "''Report.PDF''"]
    extractor_never_raises[of broken_libs "''junk''" "''Report.PDF''"]
    extractor_never_raises[of broken_libs "''junk''" "''cv.docx''"]
    extractor_never_raises[of broken_libs "''junk''" "''notes.txt''"]
    ends libs run
  show ?thesis by (simp add: pdf_failed_def docx_failed_def)
qed

subsection \<open>Text Normalizer\<close>

lemma split_head_absent: "\<not> contains m s \<Longrightarrow> split_head m s = s"
  by (induction s) auto

lemma cut_marker_split_head: "cut_marker s m = split_head m s"
  by (simp add: cut_marker_def split_head_absent)

lemma before_markers_keeps:
  "prefix t cs \<Longrightarrow> CHR ''\<newline>'' \<notin> set t \<Longrightarrow> \<forall>m\<in>set ms. m \<noteq> [] \<and> hd m = CHR ''\<newline>'' \<Longrightarrow>
   prefix t (before_markers ms cs)"
proof (induction t arbitrary: cs)
  case Nil
  then show ?case by simp
next
  case (Cons x t)
  from Cons.prems(1) obtain cs' where cs: "cs = x # cs'" and p: "prefix t cs'"
    by (cases cs) auto
  have x: "x \<noteq> CHR ''\<newline>''" using Cons.prems(2) by auto
  have "\<not> (\<exists>m\<in>set ms. prefix m (x # cs'))"
  proof
    assume "\<exists>m\<in>set ms. prefix m (x # cs')"
    then obtain m where m: "m \<in> set ms" "prefix m (x # cs')" by blast
    with Cons.prems(3) have "m \<noteq> []" "hd m = CHR ''\<newline>''" by auto
    with m(2) x show False by (cases m) auto
  qed
  moreover have "prefix t (before_markers ms cs')"
    using Cons.IH[OF p] Cons.prems(2,3) by simp
  ultimately show ?case by (simp add: cs)
qed

lemma before_markers_prefix: "prefix (before_markers ms s) s"
  by (induction s) auto

lemma split_head_before_markers:
  assumes ms: "\<forall>m'\<in>set ms. m' \<noteq> [] \<and> hd m' = CHR ''\<newline>''"
    and m: "m = c0 # t" "CHR ''\<newline>'' \<notin> set t"
  shows "split_head m (before_markers ms s) = before_markers (m # ms) s"
proof (induction s)
  case Nil
  then show ?case by simp
next
  case (Cons c cs)
  show ?case
  proof (cases "\<exists>m'\<in>set ms. prefix m' (c # cs)")
    case True
    then show ?thesis by auto
  next
    case False
    have eq: "prefix m (c # before_markers ms cs) \<longleftrightarrow> prefix m (c # cs)"
    proof
      assume "prefix m (c # before_markers ms cs)"
      moreover have "prefix (c # before_markers ms cs) (c # cs)"
        by (simp add: before_markers_prefix)
      ultimately show "prefix m (c # cs)" by (rule prefix_order.trans)
    next
      assume "prefix m (c # cs)"
      then have "c0 = c" and "prefix t cs" by (simp_all add: m(1))
      then show "prefix m (c # before_markers ms cs)"
        using before_markers_keeps[OF \<open>prefix t cs\<close> m(2) ms] by (simp add: m(1))
    qed
    show ?thesis using False Cons.IH eq by auto
  qed
qed

lemma before_markers_none: "before_markers [] s = s"
  by (induction s) auto

lemma before_markers_set: "set ms = set ms' \<Longrightarrow> before_markers ms s = before_markers ms' s"
  by (induction s) auto

lemma foldl_cut_markers: "foldl cut_marker s markers = before_markers markers s"
proof -
  let ?nl = "CHR ''\<newline>''"
  have 1: "split_head ''\<newline>--'' s = before_markers [''\<newline>--''] s"
    using split_head_before_markers[of "[]" "''\<newline>--''" ?nl "''--''" s]
    by (simp add: before_markers_none)
  have 2: "split_head ''\<newline>Thanks'' (before_markers [''\<newline>--''] s)
             = before_markers [''\<newline>Thanks'', ''\<newline>--''] s"
    by (rule split_head_before_markers[where t = "''Thanks''" and ?c0.0 = ?nl]) simp_all
  have 3: "split_head ''\<newline>Best regards'' (before_markers [''\<newline>Thanks'', ''\<newline>--''] s)
             = before_markers [''\<newline>Best regards'', ''\<newline>Thanks'', ''\<newline>--''] s"
    by (rule split_head_before_markers[where t = "''Best regards''" and ?c0.0 = ?nl]) simp_all
  have 4: "split_head ''\<newline>Sent from my''
             (before_markers [''\<newline>Best regards'', ''\<newline>Thanks'', ''\<newline>--''] s)
             = before_markers [''\<newline>Sent from my'', ''\<newline>Best regards'', ''\<newline>Thanks'', ''\<newline>--''] s"
    by (rule split_head_before_markers[where t = "''Sent from my''" and ?c0.0 = ?nl]) simp_all
  have "foldl cut_marker s markers
          = before_markers [''\<newline>Sent from my'', ''\<newline>Best regards'', ''\<newline>Thanks'', ''\<newline>--''] s"
    by (simp add: markers_def cut_marker_split_head 1 2 3 4)
  also have "\<dots> = before_markers markers s"
    by (rule before_markers_set) (auto simp: markers_def)
  finally show ?thesis .
qed

lemma before_markers_position:
  "\<exists>n\<le>length s. before_markers ms s = take n s
      \<and> (\<forall>i<n. \<forall>m\<in>set ms. \<not> prefix m (drop i s))
      \<and> (n < length s \<longrightarrow> (\<exists>m\<in>set ms. prefix m (drop n s)))"
proof (induction s)
  case Nil
  then show ?case by simp
next
  case (Cons c cs)
  show ?case
  proof (cases "\<exists>m\<in>set ms. prefix m (c # cs)")
    case True
    then show ?thesis by (intro exI[of _ 0]) simp
  next
    case False
    from Cons.IH obtain n where n: "n \<le> length cs" "before_markers ms cs = take n cs"
      "\<forall>i<n. \<forall>m\<in>set ms. \<not> prefix m (drop i cs)"
      "n < length cs \<longrightarrow> (\<exists>m\<in>set ms. prefix m (drop n cs))" by blast
    have "\<forall>i<Suc n. \<forall>m\<in>set ms. \<not> prefix m (drop i (c # cs))"
    proof (intro allI impI)
      fix i assume "i < Suc n"
      then show "\<forall>m\<in>set ms. \<not> prefix m (drop i (c # cs))"
        using False n(3) by (cases i) auto
    qed
    then show ?thesis using False n by (intro exI[of _ "Suc n"]) simp
  qed
qed

text \<open>
  C7. For every raw body, with \<open>cleaned\<close> the contents of the non-quoted reply fragments in
  their order joined with newlines, the normalizer returns \<open>cleaned\<close> cut at the first
  position \<open>n\<close> where one of the four markers occurs as a literal substring (no marker
  occurs at an earlier position; \<open>n\<close> is the length of \<open>cleaned\<close> when none occurs at all),
  with leading and trailing whitespace removed.
\<close>

theorem strip_quoted_and_signature_cuts:
  "\<exists>n\<le>length (join ''\<newline>'' (map content (filter (\<lambda>f. \<not> quoted f) (fragments lib raw)))).
     strip_quoted_and_signature lib raw
       = strip (take n (join ''\<newline>'' (map content (filter (\<lambda>f. \<not> quoted f) (fragments lib raw)))))
     \<and> (\<forall>i<n. \<forall>m\<in>set markers. \<not> prefix m
            (drop i (join ''\<newline>'' (map content (filter (\<lambda>f. \<not> quoted f) (fragments lib raw))))))
     \<and> (n < length (join ''\<newline>'' (map content (filter (\<lambda>f. \<not> quoted f) (fragments lib raw))))
          \<longrightarrow> (\<exists>m\<in>set markers. prefix m
            (drop n (join ''\<newline>'' (map content (filter (\<lambda>f. \<not> quoted f) (fragments lib raw)))))))"
proof -
  let ?cleaned = "join ''\<newline>'' (map content (filter (\<lambda>f. \<not> quoted f) (fragments lib raw)))"
  have "strip_quoted_and_signature lib raw = strip (before_markers markers ?cleaned)"
    by (simp add: strip_quoted_and_signature_def foldl_cut_markers)
  with before_markers_position[of ?cleaned markers] show ?thesis by auto
qed


theorem strip_quoted_and_signature_cuts_witness:
  "strip_quoted_and_signature broken_libs ''Hello\<newline>Thanks,\<newline>Alice'' = ''Hello''
   \<and> join ''\<newline>'' (map content (filter (\<lambda>f. \<not> quoted f)
         (fragments broken_libs ''Hello\<newline>Thanks,\<newline>Alice''))) = ''Hello\<newline>Thanks,\<newline>Alice''
   \<and> (5::nat) < length ''Hello\<newline>Thanks,\<newline>Alice''
   \<and> ''\<newline>Thanks'' \<in> set markers
   \<and> prefix ''\<newline>Thanks'' (drop 5 ''Hello\<newline>Thanks,\<newline>Alice'')
   \<and> strip_quoted_and_signature broken_libs '' see below\<newline>Thanks\<newline>--Al '' = ''see below''"
proof -
  have "strip_quoted_and_signature broken_libs ''Hello\<newline>Thanks,\<newline>Alice'' = ''Hello''"
    by (simp add: strip_quoted_and_signature_def broken_libs_def markers_def cut_marker_def
        strip_def is_space_def)
  moreover have "strip_quoted_and_signature broken_libs '' see below\<newline>Thanks\<newline>--Al '' = ''see below''"
    by (simp add: strip_quoted_and_signature_def broken_libs_def markers_def cut_marker_def
        strip_def is_space_def)
  ultimately show ?thesis
    using strip_quoted_and_signature_cuts[of broken_libs "''Hello\<newline>Thanks,\<newline>Alice''"]
    by (simp add: broken_libs_def markers_def)
qed

subsection \<open>MIME Walker: the Composite Document\<close>

lemma visit_all_append:
  "visit_all svc lib msg_id (xs @ ys) st =
     (case visit_all svc lib msg_id xs st of
        Inl e \<Rightarrow> Inl e
      | Inr st' \<Rightarrow> visit_all svc lib msg_id ys st')"
  by (induction xs arbitrary: st) (auto split: sum.splits)

lemma walk_visits_preorder:
  "walk_parts svc lib msg_id ps st = visit_all svc lib msg_id (preorder ps) st"
  "walk_part svc lib msg_id p st = visit_all svc lib msg_id (preorder_part p) st"
proof (induction svc lib msg_id ps st and svc lib msg_id p st rule: walk_parts_walk_part.induct)
  case (1 svc lib msg_id st)
  then show ?case by simp
next
  case (2 svc lib msg_id p ps st)
  then show ?case by (simp add: visit_all_append split: sum.splits)
next
  case (3 svc lib msg_id mt fn hs b sub st)
  then show ?case by (simp split: sum.splits option.splits)
qed

lemma append_attachment_extend:
  "append_attachment lib fn file_data st =
     (case append_attachment lib fn file_data no_text of
        Inl e \<Rightarrow> Inl e
      | Inr out \<Rightarrow> Inr (extend st out))"
  by (simp add: append_attachment_def extend_def no_text_def split: option.splits sum.splits)

lemma extend_no_text: "extend st no_text = st"
  by (simp add: extend_def no_text_def)

lemma visit_part_extend:
  "visit_part svc lib msg_id p st =
     (case visit_part svc lib msg_id p no_text of
        Inl e \<Rightarrow> Inl e
      | Inr out \<Rightarrow> Inr (extend st out))"
proof -
  have att: "and_then m (\<lambda>file_data. append_attachment lib fn file_data st) =
     (case and_then m (\<lambda>file_data. append_attachment lib fn file_data no_text) of
        Inl e \<Rightarrow> Inl e
      | Inr out \<Rightarrow> Inr (extend st out))" for m fn
    by (cases m) (simp_all add: and_then_def append_attachment_extend[of lib fn _ st])
  show ?thesis
    unfolding visit_part_def Let_def
    by (simp add: att and_then_def item_def extend_no_text split: sum.splits option.splits)
      (simp add: extend_def no_text_def)
qed


lemma visit_part_output:
  "visit_part svc lib msg_id p st = Inr st' \<Longrightarrow> st' = extend st (part_output svc lib msg_id p)"
  using visit_part_extend[of svc lib msg_id p st]
  by (auto simp: part_output_def split: sum.splits)

lemma visit_all_outputs:
  "visit_all svc lib msg_id ps st = Inr st' \<Longrightarrow>
   body_text st' = body_text st @ concat (map (\<lambda>p. body_text (part_output svc lib msg_id p)) ps)
   \<and> attachments_text st'
       = attachments_text st @ concat (map (\<lambda>p. attachments_text (part_output svc lib msg_id p)) ps)"
proof (induction ps arbitrary: st)
  case Nil
  then show ?case by simp
next
  case (Cons p ps)
  from Cons.prems obtain st1 where v: "visit_part svc lib msg_id p st = Inr st1"
    and r: "visit_all svc lib msg_id ps st1 = Inr st'"
    by (auto split: sum.splits)
  from visit_part_output[OF v] have "st1 = extend st (part_output svc lib msg_id p)" .
  with Cons.IH[OF r] show ?case by (simp add: extend_def)
qed

lemma get_email_details_text:
  assumes run: "get_email_details svc lib msg_id = Inr det"
  shows "\<exists>msg pl st. messages_get svc msg_id = Inr msg \<and> payload msg = Some pl
           \<and> collect_text svc lib msg_id pl = Inr st \<and> d_id det = msg_id
           \<and> d_text det = full_text lib (d_subject det) (d_sender det) (d_to det) (d_date det) st"
  using run
  by (auto simp: get_email_details_def and_then_def item_def Let_def
      split: sum.splits option.splits)


lemma strip_plain: "strip ''Hello'' = ''Hello''" "strip ''Hi'' = ''Hi''"
  by (simp_all add: strip_def is_space_def)

lemma normalize_plain:
  "strip_quoted_and_signature office_libs ''Hello'' = ''Hello''"
  "strip_quoted_and_signature office_libs ''Hi'' = ''Hi''"
  by (simp_all add: strip_quoted_and_signature_def office_libs_def markers_def cut_marker_def
      strip_plain)

lemma ends_samples:
  "endswith (lower ''blank.pdf'') ''.pdf''"
  "\<not> endswith (lower ''cv.DOCX'') ''.pdf''" "endswith (lower ''cv.DOCX'') ''.docx''"
  by (simp_all add: endswith_def lower_def lower_char_def suffix_to_prefix)

lemma mimes_differ: "pdf_mime \<noteq> ''text/plain''" "docx_mime \<noteq> ''text/plain''"
  "''multipart/mixed'' \<noteq> ''text/plain''" "''multipart/mixed'' \<noteq> pdf_mime"
  "''multipart/mixed'' \<noteq> docx_mime" "docx_mime \<noteq> pdf_mime"
  by (simp_all add: pdf_mime_def docx_mime_def)

lemma multipart_sel: "headers (multipart hs ps) = hs" "parts (multipart hs ps) = Some ps"
  by (simp_all add: multipart_def)

lemma collect_blank_pdf:
  "collect_text mail_service office_libs ''m1''
     (multipart (Some report_headers) [text_part ''Hello'', file_part pdf_mime (Some ''blank.pdf'')])
   = Inr \<lparr>body_text = ''Hello'', attachments_text = [[]]\<rparr>"
  by (simp add: collect_text_def multipart_def text_part_def file_part_def visit_part_def
      and_then_def item_def truthy_def mimes_differ append_attachment_def ends_samples
      pdf_text_def mail_service_def office_libs_def blank_reader_def pages_loop.simps)

text \<open>
  C6, as stated, fails: message \<open>m1\<close> carries one PDF without any page, so the only
  attachment text is empty, and its Composite Document still ends with the
  \<open>Attachments:\<close> section.
\<close>

theorem attachments_section_without_text:
  "get_email_details mail_service office_libs ''m1'' =
     Inr \<lparr>d_id = ''m1'', d_thread_id = Some ''t1'', d_subject = ''Report'', d_sender = ''a@x.org'',
          d_to = [], d_date = [],
          d_text = ''Subject: Report\<newline>From: a@x.org\<newline>To: \<newline>Date: \<newline>\<newline>Hello\<newline>\<newline>Attachments:\<newline>''\<rparr>
   \<and> collect_text mail_service office_libs ''m1''
         (multipart (Some report_headers) [text_part ''Hello'', file_part pdf_mime (Some ''blank.pdf'')])
       = Inr \<lparr>body_text = ''Hello'', attachments_text = [[]]\<rparr>"
proof -
  have "messages_get mail_service ''m1'' = Inr blank_pdf_message"
    by (simp add: mail_service_def)
  moreover have "headers_dict report_headers Map.empty
      = Inr (Map.empty(''Subject'' \<mapsto> ''Report'', ''From'' \<mapsto> ''a@x.org''))"
    by (simp add: report_headers_def and_then_def item_def)
  ultimately show ?thesis
    by (simp add: get_email_details_def and_then_def item_def blank_pdf_message_def
        collect_blank_pdf full_text_def get_or_empty_def normalize_plain multipart_sel Let_def)
qed


text \<open>
  C6, amended. For every message whose details are returned, the Composite Document is the
  header block (Subject, From, To, Date, one per line, each the last header of that name or
  empty), a blank line and the normalized body text, followed by the \<open>Attachments:\<close>
  section exactly when at least one attachment text was collected, whether or not any of
  them is non-empty; the section joins the collected texts with newlines, in the order in
  which the parts are met in a depth-first walk of the part tree. A message without
  \<open>parts\<close> has no such section.
\<close>

theorem composite_document:
  assumes run: "get_email_details svc lib msg_id = Inr det"
  shows "\<exists>msg pl hs hd st.
      messages_get svc msg_id = Inr msg \<and> payload msg = Some pl \<and> headers pl = Some hs
    \<and> headers_dict hs Map.empty = Inr hd
    \<and> d_subject det = get_or_empty hd ''Subject'' \<and> d_sender det = get_or_empty hd ''From''
    \<and> d_to det = get_or_empty hd ''To'' \<and> d_date det = get_or_empty hd ''Date''
    \<and> collect_text svc lib msg_id pl = Inr st
    \<and> d_text det =
        ''Subject: '' @ d_subject det @ ''\<newline>From: '' @ d_sender det @ ''\<newline>To: '' @ d_to det
          @ ''\<newline>Date: '' @ d_date det @ ''\<newline>\<newline>''
          @ strip_quoted_and_signature lib (body_text st)
          @ (if attachments_text st = [] then []
             else ''\<newline>\<newline>Attachments:\<newline>'' @ join ''\<newline>'' (attachments_text st))
    \<and> (\<forall>ps. parts pl = Some ps \<longrightarrow>
          body_text st = concat (map (\<lambda>p. body_text (part_output svc lib msg_id p)) (preorder ps))
        \<and> attachments_text st
            = concat (map (\<lambda>p. attachments_text (part_output svc lib msg_id p)) (preorder ps)))
    \<and> (parts pl = None \<longrightarrow> attachments_text st = [])"
proof -
  from run obtain msg pl hs hd st where
    m: "messages_get svc msg_id = Inr msg" "payload msg = Some pl" "headers pl = Some hs"
      "headers_dict hs Map.empty = Inr hd" "collect_text svc lib msg_id pl = Inr st"
    and det: "det = \<lparr>d_id = msg_id, d_thread_id = threadId msg,
        d_subject = get_or_empty hd ''Subject'', d_sender = get_or_empty hd ''From'',
        d_to = get_or_empty hd ''To'', d_date = get_or_empty hd ''Date'',
        d_text = full_text lib (get_or_empty hd ''Subject'') (get_or_empty hd ''From'')
                   (get_or_empty hd ''To'') (get_or_empty hd ''Date'') st\<rparr>"
    by (auto simp: get_email_details_def and_then_def item_def Let_def
        split: sum.splits option.splits)
  have doc: "d_text det =
        ''Subject: '' @ d_subject det @ ''\<newline>From: '' @ d_sender det @ ''\<newline>To: '' @ d_to det
          @ ''\<newline>Date: '' @ d_date det @ ''\<newline>\<newline>''
          @ strip_quoted_and_signature lib (body_text st)
          @ (if attachments_text st = [] then []
             else ''\<newline>\<newline>Attachments:\<newline>'' @ join ''\<newline>'' (attachments_text st))"
    by (simp add: det full_text_def Let_def)
  have tree: "body_text st = concat (map (\<lambda>p. body_text (part_output svc lib msg_id p)) (preorder ps))
        \<and> attachments_text st
            = concat (map (\<lambda>p. attachments_text (part_output svc lib msg_id p)) (preorder ps))"
    if ps: "parts pl = Some ps" for ps
  proof -
    from m(5) ps have "visit_all svc lib msg_id (preorder ps)
        \<lparr>body_text = [], attachments_text = []\<rparr> = Inr st"
      by (simp add: collect_text_def walk_visits_preorder)
    from visit_all_outputs[OF this] show ?thesis by simp
  qed
  have single: "attachments_text st = []" if "parts pl = None"
    using m(5) that
    by (auto simp: collect_text_def and_then_def item_def Let_def
        split: option.splits sum.splits if_splits)
  have fields: "d_subject det = get_or_empty hd ''Subject''" "d_sender det = get_or_empty hd ''From''"
    "d_to det = get_or_empty hd ''To''" "d_date det = get_or_empty hd ''Date''"
    by (simp_all add: det)
  show ?thesis
  proof (intro exI[of _ msg] exI[of _ pl] exI[of _ hs] exI[of _ hd] exI[of _ st] conjI)
    show "\<forall>ps. parts pl = Some ps \<longrightarrow>
          body_text st = concat (map (\<lambda>p. body_text (part_output svc lib msg_id p)) (preorder ps))
        \<and> attachments_text st
            = concat (map (\<lambda>p. attachments_text (part_output svc lib msg_id p)) (preorder ps))"
      using tree by blast
    show "parts pl = None \<longrightarrow> attachments_text st = []"
      using single by blast
  qed (fact m fields doc)+
qed

lemma collect_docx:
  "collect_text mail_service office_libs ''m2''
     (multipart (Some report_headers)
        [multipart None [text_part ''Hi''], file_part docx_mime (Some ''cv.DOCX'')])
   = Inr \<lparr>body_text = ''Hi'', attachments_text = [''Quarterly\<newline>numbers'']\<rparr>"
  by (simp add: collect_text_def multipart_def text_part_def file_part_def visit_part_def
      and_then_def item_def truthy_def mimes_differ append_attachment_def ends_samples
      mail_service_def office_libs_def)

theorem composite_document_witness:
  "get_email_details mail_service office_libs ''m2'' =
     Inr \<lparr>d_id = ''m2'', d_thread_id = Some ''t2'', d_subject = ''Report'', d_sender = ''a@x.org'',
          d_to = [], d_date = [],
          d_text = ''Subject: Report\<newline>From: a@x.org\<newline>To: \<newline>Date: \<newline>\<newline>Hi\<newline>\<newline>Attachments:\<newline>Quarterly\<newline>numbers''\<rparr>
   \<and> collect_text mail_service office_libs ''m2''
         (multipart (Some report_headers)
            [multipart None [text_part ''Hi''], file_part docx_mime (Some ''cv.DOCX'')])
       = Inr \<lparr>body_text = ''Hi'', attachments_text = [''Quarterly\<newline>numbers'']\<rparr>"
proof -
  have msg: "messages_get mail_service ''m2'' = Inr docx_message"
    by (simp add: mail_service_def)
  have hd: "headers_dict report_headers Map.empty
      = Inr (Map.empty(''Subject'' \<mapsto> ''Report'', ''From'' \<mapsto> ''a@x.org''))"
    by (simp add: report_headers_def and_then_def item_def)
  have run: "get_email_details mail_service office_libs ''m2'' =
     Inr \<lparr>d_id = ''m2'', d_thread_id = Some ''t2'', d_subject = ''Report'', d_sender = ''a@x.org'',
          d_to = [], d_date = [],
          d_text = ''Subject: Report\<newline>From: a@x.org\<newline>To: \<newline>Date: \<newline>\<newline>Hi\<newline>\<newline>Attachments:\<newline>Quarterly\<newline>numbers''\<rparr>"
    using msg hd
    by (simp add: get_email_details_def and_then_def item_def docx_message_def
        collect_docx full_text_def get_or_empty_def normalize_plain multipart_sel Let_def)
  from composite_document[OF run] run show ?thesis
    by (simp add: collect_docx)
qed

subsection \<open>MIME Walker: a part without filename\<close>














subsection \<open>Ingestion Pipeline: the payload of the points\<close>

lemma embed_chunks_result:
  "embed_chunks encode det chunks points n = Inr (points', n') \<Longrightarrow>
   \<exists>new. points' = points @ new \<and> n' = n + length new \<and> length new = length chunks
     \<and> map ps_id new = [n..<n + length new]
     \<and> (\<forall>q\<in>set new. ps_payload q = det \<and> (\<exists>c\<in>set chunks. encode c = Inr (ps_vector q)))"
proof (induction chunks arbitrary: points n)
  case Nil
  then show ?case by simp
next
  case (Cons c chunks)
  from Cons.prems obtain vec where vec: "encode c = Inr vec"
    and rest: "embed_chunks encode det chunks
        (points @ [\<lparr>ps_id = n, ps_vector = vec, ps_payload = det\<rparr>]) (Suc n) = Inr (points', n')"
    by (auto split: sum.splits)
  from Cons.IH[OF rest] obtain new where new:
    "points' = (points @ [\<lparr>ps_id = n, ps_vector = vec, ps_payload = det\<rparr>]) @ new"
    "n' = Suc n + length new" "length new = length chunks"
    "map ps_id new = [Suc n..<Suc n + length new]"
    "\<forall>q\<in>set new. ps_payload q = det \<and> (\<exists>c\<in>set chunks. encode c = Inr (ps_vector q))"
    by blast
  let ?new = "\<lparr>ps_id = n, ps_vector = vec, ps_payload = det\<rparr> # new"
  have "points' = points @ ?new" using new(1) by simp
  moreover have "n' = n + length ?new" using new(2) by simp
  moreover have "length ?new = length (c # chunks)" using new(3) by simp
  moreover have "[n..<n + length ?new] = n # [Suc n..<Suc n + length new]"
    by (subst upt_rec) simp
  then have "map ps_id ?new = [n..<n + length ?new]"
    using new(4) by simp
  moreover have "\<forall>q\<in>set ?new. ps_payload q = det
      \<and> (\<exists>c'\<in>set (c # chunks). encode c' = Inr (ps_vector q))"
    using new(5) vec by auto
  ultimately show ?case by (intro exI[of _ ?new]) simp
qed

lemma get_email_details_id: "get_email_details svc lib msg_id = Inr det \<Longrightarrow> d_id det = msg_id"
  using get_email_details_text by blast

lemma process_messages_result:
  "process_messages svc lib encode message_ids points n = Inr (points', n') \<Longrightarrow>
   \<exists>new. points' = points @ new \<and> n' = n + length new
     \<and> map ps_id new = [n..<n + length new]
     \<and> (\<forall>q\<in>set new. d_id (ps_payload q) \<in> set message_ids
           \<and> get_email_details svc lib (d_id (ps_payload q)) = Inr (ps_payload q)
           \<and> (\<exists>chunks. chunk_text (d_text (ps_payload q)) 200 = Inr chunks
                 \<and> (\<exists>c\<in>set chunks. encode c = Inr (ps_vector q))))"
proof (induction message_ids arbitrary: points n)
  case Nil
  then show ?case by simp
next
  case (Cons m ids)
  from Cons.prems obtain det chunks points1 n1 where
    det: "get_email_details svc lib m = Inr det"
    and ch: "chunk_text (d_text det) 200 = Inr chunks"
    and emb: "embed_chunks encode det chunks points n = Inr (points1, n1)"
    and rest: "process_messages svc lib encode ids points1 n1 = Inr (points', n')"
    by (auto split: sum.splits prod.splits)
  from embed_chunks_result[OF emb] obtain new1 where new1:
    "points1 = points @ new1" "n1 = n + length new1"
    "map ps_id new1 = [n..<n + length new1]"
    "\<forall>q\<in>set new1. ps_payload q = det \<and> (\<exists>c\<in>set chunks. encode c = Inr (ps_vector q))"
    by blast
  from Cons.IH[OF rest] obtain new2 where new2:
    "points' = points1 @ new2" "n' = n1 + length new2"
    "map ps_id new2 = [n1..<n1 + length new2]"
    "\<forall>q\<in>set new2. d_id (ps_payload q) \<in> set ids
           \<and> get_email_details svc lib (d_id (ps_payload q)) = Inr (ps_payload q)
           \<and> (\<exists>chunks. chunk_text (d_text (ps_payload q)) 200 = Inr chunks
                 \<and> (\<exists>c\<in>set chunks. encode c = Inr (ps_vector q)))"
    by blast
  have id: "d_id det = m" using det by (rule get_email_details_id)
  have a: "points' = points @ (new1 @ new2)" using new1(1) new2(1) by simp
  have b: "n' = n + length (new1 @ new2)" using new1(2) new2(2) by simp
  have "[n..<n + length new1 + length new2] = [n..<n + length new1] @ [n + length new1..<n + length new1 + length new2]"
    by (metis le_add1 upt_add_eq_append)
  then have c: "map ps_id (new1 @ new2) = [n..<n + length (new1 @ new2)]"
    using new1(2,3) new2(3) by (simp add: add.assoc)
  have d: "\<forall>q\<in>set (new1 @ new2). d_id (ps_payload q) \<in> set (m # ids)
           \<and> get_email_details svc lib (d_id (ps_payload q)) = Inr (ps_payload q)
           \<and> (\<exists>chunks. chunk_text (d_text (ps_payload q)) 200 = Inr chunks
                 \<and> (\<exists>c\<in>set chunks. encode c = Inr (ps_vector q)))"
  proof
    fix q assume "q \<in> set (new1 @ new2)"
    then consider "q \<in> set new1" | "q \<in> set new2" by auto
    then show "d_id (ps_payload q) \<in> set (m # ids)
           \<and> get_email_details svc lib (d_id (ps_payload q)) = Inr (ps_payload q)
           \<and> (\<exists>chunks. chunk_text (d_text (ps_payload q)) 200 = Inr chunks
                 \<and> (\<exists>c\<in>set chunks. encode c = Inr (ps_vector q)))"
    proof cases
      case 1
      with new1(4) have "ps_payload q = det" "\<exists>c\<in>set chunks. encode c = Inr (ps_vector q)"
        by auto
      then show ?thesis using id det ch by auto
    next
      case 2
      with new2(4) show ?thesis by auto
    qed
  qed
  show ?case by (intro exI[of _ "new1 @ new2"] conjI a b c d)
qed

text \<open>
  C5. When the loop of \<open>main\<close> returns its points, the payload of every point is the whole
  dictionary \<open>get_email_details\<close> returned for the point's message (metadata and the full
  Composite Document text), its vector is the embedding of one chunk of that text, two
  points of the same message have the same payload, and the identifiers are
  \<open>0, 1, 2, ...\<close> in the order of the points, hence pairwise different.
\<close>

theorem points_share_payload:
  assumes run: "main_points svc lib encode message_ids = Inr points"
  shows "(\<forall>q\<in>set points. d_id (ps_payload q) \<in> set message_ids
            \<and> get_email_details svc lib (d_id (ps_payload q)) = Inr (ps_payload q)
            \<and> (\<exists>chunks. chunk_text (d_text (ps_payload q)) 200 = Inr chunks
                  \<and> (\<exists>c\<in>set chunks. encode c = Inr (ps_vector q))))
       \<and> (\<forall>q\<in>set points. \<forall>r\<in>set points.
             d_id (ps_payload q) = d_id (ps_payload r) \<longrightarrow> ps_payload q = ps_payload r)
       \<and> map ps_id points = [0..<length points]"
proof -
  have "\<exists>n. process_messages svc lib encode message_ids [] 0 = Inr (points, n)"
  proof (cases "process_messages svc lib encode message_ids [] 0")
    case (Inl e)
    with run show ?thesis by (simp add: main_points_def)
  next
    case (Inr r)
    obtain pts n where r: "r = (pts, n)" by (cases r)
    with run Inr have "pts = points" by (simp add: main_points_def)
    with Inr r show ?thesis by simp
  qed
  then obtain n where "process_messages svc lib encode message_ids [] 0 = Inr (points, n)" ..
  from process_messages_result[OF this] obtain new where new: "points = [] @ new"
    "map ps_id new = [0..<0 + length new]"
    "\<forall>q\<in>set new. d_id (ps_payload q) \<in> set message_ids
            \<and> get_email_details svc lib (d_id (ps_payload q)) = Inr (ps_payload q)
            \<and> (\<exists>chunks. chunk_text (d_text (ps_payload q)) 200 = Inr chunks
                  \<and> (\<exists>c\<in>set chunks. encode c = Inr (ps_vector q)))"
    by blast
  from new(1) have eq: "new = points" by simp
  have ids: "map ps_id points = [0..<length points]"
    using new(2) unfolding eq by simp
  have each: "\<forall>q\<in>set points. d_id (ps_payload q) \<in> set message_ids
            \<and> get_email_details svc lib (d_id (ps_payload q)) = Inr (ps_payload q)
            \<and> (\<exists>chunks. chunk_text (d_text (ps_payload q)) 200 = Inr chunks
                  \<and> (\<exists>c\<in>set chunks. encode c = Inr (ps_vector q)))"
    using new(3) unfolding eq .
  have same: "ps_payload q = ps_payload r"
    if "q \<in> set points" "r \<in> set points" "d_id (ps_payload q) = d_id (ps_payload r)" for q r
  proof -
    from each that(1) have "get_email_details svc lib (d_id (ps_payload q)) = Inr (ps_payload q)"
      by blast
    then have q: "get_email_details svc lib (d_id (ps_payload r)) = Inr (ps_payload q)"
      unfolding that(3) .
    from each that(2) have r: "get_email_details svc lib (d_id (ps_payload r)) = Inr (ps_payload r)"
      by blast
    from q r have "Inr (ps_payload q) = (Inr (ps_payload r) :: exn + details)"
      by (rule trans[OF sym])
    then show ?thesis by (simp only: sum.inject)
  qed
  show ?thesis
  proof (intro conjI)
    show "\<forall>q\<in>set points. \<forall>r\<in>set points.
             d_id (ps_payload q) = d_id (ps_payload r) \<longrightarrow> ps_payload q = ps_payload r"
      using same by blast
  qed (fact each ids)+
qed


lemma chunks_long:
  "chunk_text (''Subject: Report\<newline>From: a@x.org\<newline>To: \<newline>Date: \<newline>\<newline>'' @ long_body) 200
   = Inr [join '' '' ([''Subject:'', ''Report'', ''From:'', ''a@x.org'', ''To:'', ''Date:'']
                        @ replicate 194 ''w''), ''w'']"
  unfolding long_body_def by code_simp

lemma normalize_long: "strip_quoted_and_signature office_libs long_body = long_body"
  unfolding long_body_def by code_simp

lemma details_long: "get_email_details mail_service office_libs ''m4'' = Inr long_details"
proof -
  have "messages_get mail_service ''m4'' = Inr long_message"
    by (simp add: mail_service_def)
  moreover have "headers_dict report_headers Map.empty
      = Inr (Map.empty(''Subject'' \<mapsto> ''Report'', ''From'' \<mapsto> ''a@x.org''))"
    by (simp add: report_headers_def and_then_def item_def)
  moreover have "collect_text mail_service office_libs ''m4''
      (multipart (Some report_headers) [text_part long_body])
      = Inr \<lparr>body_text = long_body, attachments_text = []\<rparr>"
    by (simp add: collect_text_def multipart_def text_part_def visit_part_def and_then_def
        item_def truthy_def office_libs_def long_body_def)
  ultimately show ?thesis
    by (simp add: get_email_details_def and_then_def item_def long_message_def long_details_def
        full_text_def get_or_empty_def normalize_long multipart_sel Let_def)
qed

theorem points_share_payload_witness:
  "main_points mail_service office_libs (\<lambda>chunk. Inr (length chunk)) [''m4''] =
     Inr [\<lparr>ps_id = 0,
           ps_vector = length (join '' '' ([''Subject:'', ''Report'', ''From:'', ''a@x.org'',
                                            ''To:'', ''Date:''] @ replicate 194 ''w'')),
           ps_payload = long_details\<rparr>,
          \<lparr>ps_id = 1, ps_vector = 1, ps_payload = long_details\<rparr>]
   \<and> get_email_details mail_service office_libs ''m4'' = Inr long_details"
proof -
  have run: "main_points mail_service office_libs (\<lambda>chunk. Inr (length chunk)) [''m4''] =
     Inr [\<lparr>ps_id = 0,
           ps_vector = length (join '' '' ([''Subject:'', ''Report'', ''From:'', ''a@x.org'',
                                            ''To:'', ''Date:''] @ replicate 194 ''w'')),
           ps_payload = long_details\<rparr>,
          \<lparr>ps_id = 1, ps_vector = 1, ps_payload = long_details\<rparr>]"
    using chunks_long by (simp add: main_points_def details_long long_details_def)
  from points_share_payload[OF run] run details_long show ?thesis by simp
qed

subsection \<open>Query Engine: the filters\<close>

lemma condition_holds_field: "condition_holds pt (k, v) = field_matches pt k v"
  by (simp add: condition_holds_def field_matches_def payload_get_def Let_def
      split: option.splits pvalue.splits)

lemma matches_all: "matches pt conditions = (\<forall>c\<in>set conditions. condition_holds pt c)"
  by (induction conditions) auto

lemma filtered_points_filter:
  "filtered_points conditions points = filter (\<lambda>pt. matches pt conditions) points"
  by (induction points) auto

lemma filter_conditions_mem:
  "(k, v) \<in> set (filter_conditions fs fsn fu fc) \<longleftrightarrow>
     v \<noteq> [] \<and> ((k = ''subject'' \<and> fs = Some v) \<or> (k = ''sender'' \<and> fsn = Some v)
               \<or> (k = ''url'' \<and> fu = Some v) \<or> (k = ''category'' \<and> fc = Some v))"
  by (auto simp: filter_conditions_def truthy_def split: option.splits)

lemma four_filters:
  "(\<forall>k v. v \<noteq> e \<and> ((k = a \<and> x = Some v) \<or> (k = b \<and> y = Some v)
             \<or> (k = c \<and> z = Some v) \<or> (k = d \<and> w = Some v)) \<longrightarrow> P k v) \<longleftrightarrow>
     (\<forall>v. x = Some v \<and> v \<noteq> e \<longrightarrow> P a v) \<and> (\<forall>v. y = Some v \<and> v \<noteq> e \<longrightarrow> P b v)
   \<and> (\<forall>v. z = Some v \<and> v \<noteq> e \<longrightarrow> P c v) \<and> (\<forall>v. w = Some v \<and> v \<noteq> e \<longrightarrow> P d v)"
  by blast

lemma matches_given:
  "matches pt (filter_conditions fs fsn fu fc) \<longleftrightarrow>
     (\<forall>v. fs = Some v \<and> v \<noteq> [] \<longrightarrow> field_matches pt ''subject'' v)
   \<and> (\<forall>v. fsn = Some v \<and> v \<noteq> [] \<longrightarrow> field_matches pt ''sender'' v)
   \<and> (\<forall>v. fu = Some v \<and> v \<noteq> [] \<longrightarrow> field_matches pt ''url'' v)
   \<and> (\<forall>v. fc = Some v \<and> v \<noteq> [] \<longrightarrow> field_matches pt ''category'' v)"
proof -
  have "matches pt (filter_conditions fs fsn fu fc) \<longleftrightarrow>
      (\<forall>k v. (k, v) \<in> set (filter_conditions fs fsn fu fc) \<longrightarrow> field_matches pt k v)"
    by (auto simp: matches_all condition_holds_field)
  also have "\<dots> \<longleftrightarrow>
     (\<forall>v. fs = Some v \<and> v \<noteq> [] \<longrightarrow> field_matches pt ''subject'' v)
   \<and> (\<forall>v. fsn = Some v \<and> v \<noteq> [] \<longrightarrow> field_matches pt ''sender'' v)
   \<and> (\<forall>v. fu = Some v \<and> v \<noteq> [] \<longrightarrow> field_matches pt ''url'' v)
   \<and> (\<forall>v. fc = Some v \<and> v \<noteq> [] \<longrightarrow> field_matches pt ''category'' v)"
    unfolding filter_conditions_mem by (rule four_filters)
  finally show ?thesis .
qed


lemma no_conditions:
  "filter_conditions fs fsn fu fc = [] \<longleftrightarrow>
     \<not> truthy fs \<and> \<not> truthy fsn \<and> \<not> truthy fu \<and> \<not> truthy fc"
  by (simp add: filter_conditions_def)

text \<open>
  C8. The filters are applied by the client to the page the store returned for
  \<open>(limit, offset)\<close>: the points kept are, in the order of the page, those that match every
  given filter (a filter is given when it is a non-empty string), where a point matches a
  filter when the lower-cased filter value occurs in the lower-cased payload field if that
  field is a string, equals the field if it is not a string, and a missing field counts as
  the empty string. No point is added, so a page of at most \<open>limit\<close> points gives at most
  \<open>limit\<close> points.
\<close>

theorem scroll_filter_client_side:
  assumes page: "scroll cl limit offset = Inr page"
  shows "\<exists>kept. select_points cl limit offset fs fsn fu fc = Inr kept
      \<and> kept = filter (\<lambda>pt.
            (\<forall>v. fs = Some v \<and> v \<noteq> [] \<longrightarrow> field_matches pt ''subject'' v)
          \<and> (\<forall>v. fsn = Some v \<and> v \<noteq> [] \<longrightarrow> field_matches pt ''sender'' v)
          \<and> (\<forall>v. fu = Some v \<and> v \<noteq> [] \<longrightarrow> field_matches pt ''url'' v)
          \<and> (\<forall>v. fc = Some v \<and> v \<noteq> [] \<longrightarrow> field_matches pt ''category'' v)) page
      \<and> length kept \<le> length page
      \<and> (length page \<le> nat limit \<longrightarrow> length kept \<le> nat limit)"
proof (cases "filter_conditions fs fsn fu fc = []")
  case True
  then have none: "\<not> truthy fs" "\<not> truthy fsn" "\<not> truthy fu" "\<not> truthy fc"
    by (simp_all add: no_conditions)
  have "select_points cl limit offset fs fsn fu fc = Inr page"
    using True page by (simp add: select_points_def and_then_def)
  moreover have "filter (\<lambda>pt.
            (\<forall>v. fs = Some v \<and> v \<noteq> [] \<longrightarrow> field_matches pt ''subject'' v)
          \<and> (\<forall>v. fsn = Some v \<and> v \<noteq> [] \<longrightarrow> field_matches pt ''sender'' v)
          \<and> (\<forall>v. fu = Some v \<and> v \<noteq> [] \<longrightarrow> field_matches pt ''url'' v)
          \<and> (\<forall>v. fc = Some v \<and> v \<noteq> [] \<longrightarrow> field_matches pt ''category'' v)) page = page"
    using none by (intro filter_True) (auto simp: truthy_def)
  ultimately show ?thesis by simp
next
  case False
  have "select_points cl limit offset fs fsn fu fc
          = Inr (filter (\<lambda>pt. matches pt (filter_conditions fs fsn fu fc)) page)"
    using False page by (simp add: select_points_def and_then_def filtered_points_filter)
  then show ?thesis
    unfolding matches_given
    by (simp add: order_trans[OF length_filter_le])
qed

theorem scroll_filter_client_side_witness:
  "scroll three_client 100 0 = Inr three_points
   \<and> select_points three_client 100 0 None (Some ''john@example.com'') None None
       = Inr [sender_point 1 ''John Doe <john@example.com>'', sender_point 3 ''J <JOHN@EXAMPLE.COM>'']
   \<and> field_matches (sender_point 1 ''John Doe <john@example.com>'') ''sender'' ''john@example.com''
   \<and> \<not> field_matches (sender_point 2 ''Jane <jane@example.com>'') ''sender'' ''john@example.com''
   \<and> field_matches (sender_point 3 ''J <JOHN@EXAMPLE.COM>'') ''sender'' ''john@example.com''
   \<and> length [sender_point 1 ''John Doe <john@example.com>'', sender_point 3 ''J <JOHN@EXAMPLE.COM>'']
       = (2::nat)"
proof -
  have page: "scroll three_client 100 0 = Inr three_points"
    by (simp add: three_client_def)
  have f: "field_matches (sender_point 1 ''John Doe <john@example.com>'') ''sender'' ''john@example.com''"
    "\<not> field_matches (sender_point 2 ''Jane <jane@example.com>'') ''sender'' ''john@example.com''"
    "field_matches (sender_point 3 ''J <JOHN@EXAMPLE.COM>'') ''sender'' ''john@example.com''"
    by (simp_all add: field_matches_def sender_point_def lower_def lower_char_def)
  from scroll_filter_client_side[OF page, of None "Some ''john@example.com''" None None] page f
  show ?thesis by (simp add: three_points_def)
qed

subsection \<open>Query Engine: the CSV encoding\<close>

lemma undouble_double_quotes: "undouble (double_quotes s) = s"
proof (induction s)
  case Nil
  then show ?case by simp
next
  case (Cons c cs)
  show ?case
  proof (cases "c = dq")
    case True
    then show ?thesis using Cons by simp
  next
    case False
    then show ?thesis using Cons by (cases "double_quotes cs") auto
  qed
qed

lemma sorted_keys_props:
  "sorted (sorted_keys points)" "distinct (sorted_keys points)"
  "set (sorted_keys points) = (\<Union>pt\<in>set points. fst ` set (pt_payload pt))"
  by (auto simp: sorted_keys_def)

lemma csv_cell_cases:
  "csv_cell (payload_get pt key) =
     (case map_of (pt_payload pt) key of
        None \<Rightarrow> [dq, dq]
      | Some (PStr s) \<Rightarrow> [dq] @ double_quotes s @ [dq]
      | Some v \<Rightarrow> [dq] @ str_value v @ [dq])"
  by (simp add: csv_cell_def payload_get_def quoted_text_def split: option.splits pvalue.splits)

lemma str_nat_small: "n < 10 \<Longrightarrow> str_nat n = [digit_char n]"
  by (subst str_nat.simps) simp

lemma two_points_keys: "sorted_keys two_points = [''sender'', ''subject'']"
  by (simp add: sorted_keys_def two_points_def)

lemma two_points_lines:
  "csv_lines two_points =
     [''id,'' @ [dq] @ ''sender'' @ [dq] @ '','' @ [dq] @ ''subject'' @ [dq],
      ''1,'' @ [dq] @ ''a@x.org'' @ [dq] @ '','' @ [dq] @ ''Hi'' @ [dq],
      ''2,'' @ [dq, dq] @ '','' @ [dq] @ ''Say '' @ [dq, dq] @ ''yes'' @ [dq, dq] @ [dq]]"
proof -
  have "csv_lines two_points
          = csv_header [''sender'', ''subject''] # map (csv_row [''sender'', ''subject'']) two_points"
    by (simp add: csv_lines_def two_points_keys) (simp add: two_points_def)
  then show ?thesis
    by (simp add: two_points_def csv_header_def csv_row_def csv_fields_def csv_cell_def
        payload_get_def quoted_text_def str_int_def str_nat_small digit_char_def dq_def)
qed

lemma str_int_100: "str_int 100 = ''100''" "str_int 0 = ''0''" "str_int 1 = ''1''" "str_int 2 = ''2''"
  by code_simp+

text \<open>
  C9, as stated, fails: for one point with identifier 1 and subject \<open>Hi\<close> the output starts
  with the count line and the rule line that \<open>query_all_points\<close> prints for every
  encoding, and the first field of the data row is the identifier \<open>1\<close> without quotes.
\<close>

theorem csv_output_banner_and_plain_id:
  "query_all_points_csv one_client 100 0 None None None None =
     Inr [''Found 1 points (limit: 100, offset: 0)'',
          replicate 80 CHR ''-'',
          ''id,'' @ [dq] @ ''subject'' @ [dq],
          ''1,'' @ [dq] @ ''Hi'' @ [dq]]
   \<and> csv_fields [''subject''] \<lparr>pt_id = IntId 1, pt_payload = [(''subject'', PStr ''Hi'')]\<rparr>
     = [''1'', [dq] @ ''Hi'' @ [dq]]
   \<and> hd ''1'' \<noteq> dq \<and> last ''1'' \<noteq> dq"
proof -
  have sel: "select_points one_client 100 0 None None None None
      = Inr [\<lparr>pt_id = IntId 1, pt_payload = [(''subject'', PStr ''Hi'')]\<rparr>]"
    by (simp add: select_points_def filter_conditions_def truthy_def and_then_def one_client_def)
  have keys: "sorted_keys [\<lparr>pt_id = IntId 1, pt_payload = [(''subject'', PStr ''Hi'')]\<rparr>] = [''subject'']"
    by (simp add: sorted_keys_def)
  show ?thesis
    by (simp add: query_all_points_csv_def sel and_then_def csv_lines_def keys csv_header_def
        csv_row_def csv_fields_def csv_cell_def payload_get_def quoted_text_def str_int_100 dq_def)
qed

lemma count_double_quotes: "count_list (double_quotes s) dq = 2 * count_list s dq"
  by (induction s) auto

text \<open>
  C9, amended. For every non-empty result set rendered as CSV, the output is the count
  line and the rule line, then the header row \<open>id,\<close> followed by the sorted union of the
  payload keys of the points, each key in double quotes, then one row per point: the
  identifier as \<open>str\<close> gives it, without quotes, followed by one field per key, each
  wrapped in double quotes; in a string value every double quote is doubled (so the value
  can be read back), any other value is rendered by \<open>str\<close>, and a key missing from the
  point's payload gives an empty quoted field.
\<close>

theorem csv_rendering:
  assumes sel: "select_points cl limit offset fs fsn fu fc = Inr points" and ne: "points \<noteq> []"
  shows "query_all_points_csv cl limit offset fs fsn fu fc =
           Inr ([''Found '' @ str_int (int (length points)) @ '' points (limit: ''
                   @ str_int limit @ '', offset: '' @ str_int offset @ '')'',
                 replicate 80 CHR ''-'']
                @ csv_header (sorted_keys points) # map (csv_row (sorted_keys points)) points)
    \<and> csv_header (sorted_keys points)
        = ''id,'' @ join '','' (map (\<lambda>key. [dq] @ key @ [dq]) (sorted_keys points))
    \<and> sorted (sorted_keys points) \<and> distinct (sorted_keys points)
    \<and> set (sorted_keys points) = (\<Union>pt\<in>set points. fst ` set (pt_payload pt))
    \<and> (\<forall>pt\<in>set points. csv_row (sorted_keys points) pt =
          join '','' (str_id (pt_id pt)
            # map (\<lambda>key. case map_of (pt_payload pt) key of
                           None \<Rightarrow> [dq, dq]
                         | Some (PStr s) \<Rightarrow> [dq] @ double_quotes s @ [dq]
                         | Some v \<Rightarrow> [dq] @ str_value v @ [dq])
                  (sorted_keys points)))
    \<and> (\<forall>s. undouble (double_quotes s) = s
            \<and> count_list (double_quotes s) dq = 2 * count_list s dq)"
proof -
  have out: "query_all_points_csv cl limit offset fs fsn fu fc =
           Inr ([''Found '' @ str_int (int (length points)) @ '' points (limit: ''
                   @ str_int limit @ '', offset: '' @ str_int offset @ '')'',
                 replicate 80 CHR ''-'']
                @ csv_header (sorted_keys points) # map (csv_row (sorted_keys points)) points)"
    using ne by (simp add: query_all_points_csv_def sel and_then_def csv_lines_def)
  have hdr: "csv_header (sorted_keys points)
        = ''id,'' @ join '','' (map (\<lambda>key. [dq] @ key @ [dq]) (sorted_keys points))"
    by (simp add: csv_header_def quoted_text_def[abs_def])
  have row: "csv_row (sorted_keys points) pt =
          join '','' (str_id (pt_id pt)
            # map (\<lambda>key. case map_of (pt_payload pt) key of
                           None \<Rightarrow> [dq, dq]
                         | Some (PStr s) \<Rightarrow> [dq] @ double_quotes s @ [dq]
                         | Some v \<Rightarrow> [dq] @ str_value v @ [dq])
                  (sorted_keys points))" for pt
    by (simp only: csv_row_def csv_fields_def csv_cell_cases)
  from out hdr row sorted_keys_props[of points] undouble_double_quotes count_double_quotes
  show ?thesis by (intro conjI ballI allI)
qed

theorem csv_rendering_witness:
  "select_points two_client 100 0 None None None None = Inr two_points \<and> two_points \<noteq> []
   \<and> query_all_points_csv two_client 100 0 None None None None =
       Inr [''Found 2 points (limit: 100, offset: 0)'',
            replicate 80 CHR ''-'',
            ''id,'' @ [dq] @ ''sender'' @ [dq] @ '','' @ [dq] @ ''subject'' @ [dq],
            ''1,'' @ [dq] @ ''a@x.org'' @ [dq] @ '','' @ [dq] @ ''Hi'' @ [dq],
            ''2,'' @ [dq, dq] @ '','' @ [dq] @ ''Say '' @ [dq, dq] @ ''yes'' @ [dq, dq] @ [dq]]"
proof -
  have sel: "select_points two_client 100 0 None None None None = Inr two_points"
    by (simp add: select_points_def filter_conditions_def truthy_def and_then_def two_client_def)
  have ne: "two_points \<noteq> []" by (simp add: two_points_def)
  have len: "length two_points = 2" by (simp add: two_points_def)
  have lines: "csv_header (sorted_keys two_points) # map (csv_row (sorted_keys two_points)) two_points
      = csv_lines two_points"
    using ne by (simp add: csv_lines_def)
  from csv_rendering[OF sel ne] sel ne show ?thesis
    by (simp only: lines len two_points_lines) (simp add: str_int_100)
qed

end
